theory Spec2Isabelle
  imports Complex_Main "HOL-Library.Log_Nat"
begin

section \<open>Python floats: IEEE 754 binary64, round to nearest even\<close>

text \<open>
  Every number the two calculators compute with is a Python \<open>float\<close> or a cell of a
  pandas \<open>float64\<close> column: the first operation on each input is a true division or a
  product with a float, which converts an \<open>int\<close> operand to the double of the same
  value (exact below \<open>2 ^ 53\<close>). A double is \<open>NaN\<close>, an infinity with its sign, or a
  finite value kept as sign and magnitude (so that \<open>-0.0\<close> is \<open>Finite True 0\<close>).
  The sign \<open>True\<close> is the minus sign. Each operation computes the exact rational result
  and rounds it once, as the standard prescribes.
\<close>

datatype double = Finite bool rat | Infinity bool | NaN

definition pow2 :: "int \<Rightarrow> rat" where
  "pow2 t = (if 0 \<le> t then 2 ^ nat t else 1 / 2 ^ nat (- t))"

text \<open>
  \<open>ilog2 q\<close> is the exponent \<open>e\<close> with \<open>2 ^ e \<le> q < 2 ^ (e + 1)\<close>, for \<open>q > 0\<close>.
  Below one it is found from the bit length \<open>b\<close> of the integer part of \<open>1 / q\<close>.
\<close>

definition neg_exponent :: "rat \<Rightarrow> int \<Rightarrow> int" where
  "neg_exponent q b = (if q * 2 ^ nat (b - 1) = 1 then 1 - b else - b)"

definition ilog2 :: "rat \<Rightarrow> int" where
  "ilog2 q = (if 1 \<le> q then bitlen \<lfloor>q\<rfloor> - 1 else neg_exponent q (bitlen \<lfloor>1 / q\<rfloor>))"

text \<open>
  The nearest integer to \<open>m\<close>, ties to the even one; \<open>f\<close> is the integer part of \<open>m\<close>.
\<close>

definition nearest :: "rat \<Rightarrow> int \<Rightarrow> int" where
  "nearest m f =
     (if m - of_int f < 1 / 2 then f
      else if 1 / 2 < m - of_int f then f + 1
      else if even f then f else f + 1)"

definition rne :: "rat \<Rightarrow> int" where
  "rne m = nearest m \<lfloor>m\<rfloor>"

text \<open>
  The distance between neighbouring doubles around a magnitude \<open>q\<close>: 53 significant
  bits, and never less than \<open>2 ^ - 1074\<close> (subnormals).
\<close>

definition quantum :: "rat \<Rightarrow> rat" where
  "quantum q = pow2 (max (ilog2 q - 52) (- 1074))"

definition round_to :: "rat \<Rightarrow> rat \<Rightarrow> rat" where
  "round_to u q = of_int (rne (q / u)) * u"

text \<open>A rounded magnitude of \<open>2 ^ 1024\<close> or more has overflowed (\<open>None\<close>).\<close>

definition check_overflow :: "rat \<Rightarrow> rat option" where
  "check_overflow r = (if 2 ^ 1024 \<le> r then None else Some r)"

definition round_mag :: "rat \<Rightarrow> rat option" where
  "round_mag q = (if q = 0 then Some 0 else check_overflow (round_to (quantum q) q))"

definition round_dbl :: "bool \<Rightarrow> rat \<Rightarrow> double" where
  "round_dbl s q = (case round_mag q of None \<Rightarrow> Infinity s | Some r \<Rightarrow> Finite s r)"

text \<open>The double nearest to an exact value, which keeps the sign of the value.\<close>

definition round_val :: "rat \<Rightarrow> double" where
  "round_val v = round_dbl (v < 0) \<bar>v\<bar>"

text \<open>A numeric literal of the source, or an \<open>int\<close> converted to float.\<close>

definition lit :: "rat \<Rightarrow> double" where
  "lit q = round_val q"

text \<open>The exact value of a finite double; the sums below use it on finite doubles only.\<close>

fun val :: "double \<Rightarrow> rat" where
  "val (Finite s m) = (if s then - m else m)"
| "val (Infinity s) = 0"
| "val NaN = 0"

fun fneg :: "double \<Rightarrow> double" where
  "fneg (Finite s m) = Finite (\<not> s) m"
| "fneg (Infinity s) = Infinity (\<not> s)"
| "fneg NaN = NaN"

fun fmul :: "double \<Rightarrow> double \<Rightarrow> double" where
  "fmul (Finite s m) (Finite s' m') = round_dbl (s \<noteq> s') (m * m')"
| "fmul (Finite s m) (Infinity s') = (if m = 0 then NaN else Infinity (s \<noteq> s'))"
| "fmul (Infinity s) (Finite s' m') = (if m' = 0 then NaN else Infinity (s \<noteq> s'))"
| "fmul (Infinity s) (Infinity s') = Infinity (s \<noteq> s')"
| "fmul NaN y = NaN"
| "fmul x NaN = NaN"

text \<open>
  The calculators divide a Python float by the literals 100 and 1000 only; every other
  division is between pandas columns. numpy and pandas do not raise on a division by
  zero: the quotient is an infinity, or \<open>NaN\<close> for \<open>0 / 0\<close>.
\<close>

fun fdiv :: "double \<Rightarrow> double \<Rightarrow> double" where
  "fdiv (Finite s m) (Finite s' m') =
     (if m' = 0 then (if m = 0 then NaN else Infinity (s \<noteq> s'))
      else round_dbl (s \<noteq> s') (m / m'))"
| "fdiv (Finite s m) (Infinity s') = Finite (s \<noteq> s') 0"
| "fdiv (Infinity s) (Finite s' m') = Infinity (s \<noteq> s')"
| "fdiv (Infinity s) (Infinity s') = NaN"
| "fdiv NaN y = NaN"
| "fdiv x NaN = NaN"

text \<open>
  An exact sum of zero is \<open>+0.0\<close>, unless both terms are \<open>-0.0\<close>; any other exact sum
  is rounded.
\<close>

fun fadd :: "double \<Rightarrow> double \<Rightarrow> double" where
  "fadd (Finite s m) (Finite s' m') =
     (if val (Finite s m) + val (Finite s' m') = 0 then Finite (s \<and> s') 0
      else round_val (val (Finite s m) + val (Finite s' m')))"
| "fadd (Finite s m) (Infinity s') = Infinity s'"
| "fadd (Infinity s) (Finite s' m') = Infinity s"
| "fadd (Infinity s) (Infinity s') = (if s = s' then Infinity s else NaN)"
| "fadd NaN y = NaN"
| "fadd x NaN = NaN"

definition fsub :: "double \<Rightarrow> double \<Rightarrow> double" where
  "fsub x y = fadd x (fneg y)"

fun isnan :: "double \<Rightarrow> bool" where
  "isnan NaN = True"
| "isnan _ = False"

text \<open>
  Python's \<open>x >= 0\<close> on a double in sign-magnitude form: a magnitude with the plus
  sign, a zero of either sign, or plus infinity. It is false for \<open>NaN\<close>.
\<close>

fun fge0 :: "double \<Rightarrow> bool" where
  "fge0 (Finite s m) = (0 \<le> m \<and> (s \<longrightarrow> m = 0))"
| "fge0 (Infinity s) = (\<not> s)"
| "fge0 NaN = False"

text \<open>The largest finite double, and the finite doubles \<open>x\<close> with \<open>x >= 0\<close>.\<close>

definition max_double :: rat where
  "max_double = (2 ^ 53 - 1) * 2 ^ 971"

fun finite_ge0 :: "double \<Rightarrow> bool" where
  "finite_ge0 (Finite s m) = (0 \<le> m \<and> m \<le> max_double \<and> (s \<longrightarrow> m = 0))"
| "finite_ge0 (Infinity s) = False"
| "finite_ge0 NaN = False"

text \<open>A percentage in \<open>[0, 100]\<close>, and a dry-matter percentage in \<open>(0, 100]\<close>.\<close>

definition percentage :: "double \<Rightarrow> bool" where
  "percentage x = (finite_ge0 x \<and> val x \<le> 100)"

fun dm_percentage :: "double \<Rightarrow> bool" where
  "dm_percentage (Finite s m) = (\<not> s \<and> 0 < m \<and> m \<le> 100)"
| "dm_percentage (Infinity s) = False"
| "dm_percentage NaN = False"

section \<open>The pandas and numpy operations the calculators call\<close>

text \<open>
  \<open>Series.map(dict)\<close>: a value that is not a key of the dictionary becomes \<open>NaN\<close>;
  nothing is raised.
\<close>

definition series_map :: "(string \<rightharpoonup> double) \<Rightarrow> string list \<Rightarrow> double list" where
  "series_map d xs = map (\<lambda>x. case d x of None \<Rightarrow> NaN | Some v \<Rightarrow> v) xs"

text \<open>
  \<open>Series.sum()\<close> of a float column: with the default \<open>skipna=True\<close> every \<open>NaN\<close>
  cell is replaced by \<open>0.0\<close>, then numpy adds the cells up. numpy adds fewer than eight
  cells from left to right starting from \<open>0.0\<close>; up to 128 cells go through eight
  running accumulators that are combined as a tree; longer columns are halved.
\<close>

fun add_seq :: "double \<Rightarrow> double list \<Rightarrow> double" where
  "add_seq res [] = res"
| "add_seq res (x # xs) = add_seq (fadd res x) xs"

function acc8 :: "double list \<Rightarrow> double list \<Rightarrow> double list \<times> double list" where
  "acc8 r xs =
     (if 8 \<le> length xs then acc8 (map2 fadd r (take 8 xs)) (drop 8 xs) else (r, xs))"
  by pat_completeness auto
termination
  by (relation "measure (\<lambda>(r, xs). length xs)") auto

declare acc8.simps [simp del]

definition block_sum :: "double list \<Rightarrow> double" where
  "block_sum a =
     (case acc8 (take 8 a) (drop 8 a) of (r, rest) \<Rightarrow>
        add_seq
          (fadd (fadd (fadd (r ! 0) (r ! 1)) (fadd (r ! 2) (r ! 3)))
                (fadd (fadd (r ! 4) (r ! 5)) (fadd (r ! 6) (r ! 7))))
          rest)"

function pairwise_sum :: "double list \<Rightarrow> double" where
  "pairwise_sum a =
     (if length a < 8 then add_seq (Finite False 0) a
      else if length a \<le> 128 then block_sum a
      else (let n2 = length a div 2 - (length a div 2) mod 8
            in fadd (pairwise_sum (take n2 a)) (pairwise_sum (drop n2 a))))"
  by pat_completeness auto
termination
  by (relation "measure length") auto

declare pairwise_sum.simps [simp del]

definition nansum :: "double list \<Rightarrow> double" where
  "nansum xs =
     fadd (Finite False 0)
          (pairwise_sum (map (\<lambda>x. if isnan x then Finite False 0 else x) xs))"

section \<open>Data of the calculators\<close>

datatype py_error = ValueError "string list" | KeyError string | TypeError

text \<open>\<open>d[k]\<close> on a dictionary raises \<open>KeyError\<close> for a missing key.\<close>

definition getitem :: "(string \<rightharpoonup> double) \<Rightarrow> string \<Rightarrow> py_error + double" where
  "getitem d k = (case d k of None \<Rightarrow> Inl (KeyError k) | Some v \<Rightarrow> Inr v)"

text \<open>The module-level price table, in dollars per tonne as fed.\<close>

definition ingredient_prices_asfed_tonne :: "string \<rightharpoonup> double" where
  "ingredient_prices_asfed_tonne = map_of
     [(''Wheat straw, Elora'', lit 200),
      (''Alfalfa Silage'', lit 230),
      (''Corn silage, Elora'', lit 180),
      (''Corn Grain HM'', lit 250),
      (''Soy Plus'', lit 700),
      (''Soybean meal 47%'', lit 600),
      (''Canola'', lit 600),
      (''Wheat Shorts'', lit 250),
      (''Tallow'', lit 500),
      (''Sodium chloride (salt)'', lit 1000),
      (''Limestone calcium carbonate'', lit 1000),
      (''Monocalcium phosphate(Dical)'', lit 1000),
      (''Magnesium oxide, Elora'', lit 1000),
      (''Diamond V yeast'', lit 2000),
      (''DCAD+ (Potassium carbonate)'', lit 1000),
      (''Metasmart'', lit 2000),
      (''Vitamin/mineral mix'', lit 2000)]"

text \<open>A row of the ration table, and a row of the table \<open>assign\<close> returns.\<close>

record ration_row =
  Ingredient :: string
  kg_inclusion :: double
  DM_perc :: double

record costed_row = ration_row +
  price_asfed_t :: double
  price_DM_t :: double
  price_DM_kg :: double
  daily_cost :: double

text \<open>
  What \<open>verbose=True\<close> prints, in order. Each number of the first three and the last
  two lines is printed after \<open>round(x, 2)\<close>; the value kept here is the argument of
  \<open>round\<close>.
\<close>

datatype printed =
    Print_kg_d double double double
  | Print_dollar_d double double double
  | Print_revenue double
  | Print_ration "costed_row list"
  | Print_diet_cost double
  | Print_IOFC double

section \<open>The manual calculator\<close>

text \<open>
  \<open>ration_df.assign(...)\<close>: the four new columns are computed one after the other,
  each from whole columns, and a new table is returned.
\<close>

definition assign_ration :: "(string \<rightharpoonup> double) \<Rightarrow> ration_row list \<Rightarrow> costed_row list" where
  "assign_ration ingredient_prices df =
     (let col_price_asfed_t = series_map ingredient_prices (map Ingredient df);
          col_price_DM_t =
            map (\<lambda>x. fmul x (lit 100)) (map2 fdiv col_price_asfed_t (map DM_perc df));
          col_price_DM_kg = map (\<lambda>x. fdiv x (lit 1000)) col_price_DM_t;
          col_daily_cost = map2 fmul (map kg_inclusion df) col_price_DM_kg
      in map (\<lambda>(r, a, b, c, d). ration_row.extend r (costed_row.fields a b c d))
           (zip df (zip col_price_asfed_t
             (zip col_price_DM_t (zip col_price_DM_kg col_daily_cost)))))"

text \<open>A raised error ends the call: the rest is not evaluated.\<close>

definition bind_err :: "py_error + 'a \<Rightarrow> ('a \<Rightarrow> py_error + 'b) \<Rightarrow> py_error + 'b" where
  "bind_err m f = (case m of Inl e \<Rightarrow> Inl e | Inr v \<Rightarrow> f v)"

text \<open>The section "Component Production kg/d": milk yield, fat, true protein, other solids.\<close>

definition component_production ::
  "(string \<rightharpoonup> double) \<Rightarrow> (string \<rightharpoonup> double)
     \<Rightarrow> py_error + (double \<times> double \<times> double \<times> double)" where
  "component_production milk_prices milk_components =
     bind_err (getitem milk_components ''MY_kg_d'') (\<lambda>MY_kg_d.
     bind_err (getitem milk_components ''Milk_Fat_perc'') (\<lambda>fat_perc.
     bind_err (getitem milk_components ''Milk_TProt_perc'') (\<lambda>tprot_perc.
     bind_err (getitem milk_prices ''milk_other_solids_production_perc'') (\<lambda>other_perc.
       Inr (MY_kg_d,
            fmul (fdiv fat_perc (lit 100)) MY_kg_d,
            fmul (fdiv tprot_perc (lit 100)) MY_kg_d,
            fmul (fdiv other_perc (lit 100)) MY_kg_d)))))"

text \<open>The section "Revenue $/d" of the manual calculator: the three dollar terms.\<close>

definition revenue_manual ::
  "(string \<rightharpoonup> double) \<Rightarrow> double \<Rightarrow> double \<Rightarrow> double
     \<Rightarrow> py_error + (double \<times> double \<times> double)" where
  "revenue_manual milk_prices milk_fat_kg_d milk_TP_kg_d milk_other_kg_d =
     bind_err (getitem milk_prices ''milk_fat_dollar_kg'') (\<lambda>p_fat.
     bind_err (getitem milk_prices ''milk_protein_dollar_kg'') (\<lambda>p_prot.
     bind_err (getitem milk_prices ''other_solids_dollar_kg'') (\<lambda>p_other.
       Inr (fmul milk_fat_kg_d p_fat,
            fmul milk_TP_kg_d p_prot,
            fmul milk_other_kg_d p_other))))"

text \<open>
  The section "Input validation". The source tests each identifier of the ration with
  \<open>x in ingredient_prices_asfed_tonne\<close>, the module-level table, and lists the rows
  that fail the test.
\<close>

definition ingredient_validation :: "ration_row list \<Rightarrow> bool list" where
  "ingredient_validation ration_df =
     map (\<lambda>x. ingredient_prices_asfed_tonne x \<noteq> None) (map Ingredient ration_df)"

definition unmatched_ingredients :: "ration_row list \<Rightarrow> string list" where
  "unmatched_ingredients ration_df =
     map (Ingredient \<circ> fst)
       (filter (\<lambda>(r, ok). \<not> ok) (zip ration_df (ingredient_validation ration_df)))"

text \<open>
  \<open>calc_IOFC_manual\<close> returns what it printed and either the error it raised or the
  value it returned. The prices are read from the argument \<open>ingredient_prices\<close>.
\<close>

definition calc_IOFC_manual ::
  "(string \<rightharpoonup> double) \<Rightarrow> (string \<rightharpoonup> double) \<Rightarrow> (string \<rightharpoonup> double)
     \<Rightarrow> ration_row list \<Rightarrow> bool \<Rightarrow> printed list \<times> (py_error + double)" where
  "calc_IOFC_manual milk_prices milk_components ingredient_prices ration_df verbose =
     (if \<not> list_all (\<lambda>b. b) (ingredient_validation ration_df) then
        ([], Inl (ValueError (unmatched_ingredients ration_df)))
      else
        (case component_production milk_prices milk_components of
           Inl e \<Rightarrow> ([], Inl e)
         | Inr (MY_kg_d, milk_fat_kg_d, milk_TP_kg_d, milk_other_kg_d) \<Rightarrow>
            (let out1 = (if verbose
                         then [Print_kg_d milk_fat_kg_d milk_TP_kg_d milk_other_kg_d]
                         else [])
             in (case revenue_manual milk_prices milk_fat_kg_d milk_TP_kg_d milk_other_kg_d of
                   Inl e \<Rightarrow> (out1, Inl e)
                 | Inr (milk_fat_dollar_d, milk_protein_dollar_d, milk_other_dollar_d) \<Rightarrow>
                    (let revenue_dollar_per_d =
                           fadd (fadd milk_fat_dollar_d milk_protein_dollar_d)
                                milk_other_dollar_d;
                         out2 = out1 @ (if verbose
                                 then [Print_dollar_d milk_fat_dollar_d milk_protein_dollar_d
                                         milk_other_dollar_d,
                                       Print_revenue revenue_dollar_per_d]
                                 else []);
                         ration_df2 = assign_ration ingredient_prices ration_df;
                         diet_cost_p_d = nansum (map daily_cost ration_df2);
                         out3 = out2 @ (if verbose
                                 then [Print_ration ration_df2, Print_diet_cost diet_cost_p_d]
                                 else []);
                         IOFC = fsub revenue_dollar_per_d diet_cost_p_d;
                         out4 = out3 @ (if verbose then [Print_IOFC IOFC] else [])
                     in (out4, Inr IOFC))))))"

section \<open>The calculator on the output of the nutrition model\<close>

text \<open>
  Modelled from the spec: the class \<open>nd.ModelOutput\<close> is not part of the repository.
  The calculator reads it through \<open>get_value(name)\<close>, a lookup by name that fails with
  a lookup error naming a missing field, and through the table \<open>Intakes['diet_info']\<close>,
  of which \<open>filter\<close> keeps the four columns below.
\<close>

record diet_row =
  Feedstuff :: string
  Fd_DMInp :: double
  Fd_DM :: double
  Fd_DMIn :: double

record diet_sub_row = diet_row +
  dollar_t_as_fed :: double
  dollar_t_DM :: double
  dollar_fed_p_d :: double

record ModelOutput =
  outputs :: "string \<rightharpoonup> double"
  diet_info :: "diet_row list"

definition get_value :: "ModelOutput \<Rightarrow> string \<Rightarrow> py_error + double" where
  "get_value mod_output name = getitem (outputs mod_output) name"

text \<open>The section "Revenue" of \<open>calc_IOFC_nd\<close>: the three dollar terms.\<close>

definition revenue_nd ::
  "(string \<rightharpoonup> double) \<Rightarrow> ModelOutput \<Rightarrow> py_error + (double \<times> double \<times> double)" where
  "revenue_nd milk_prices mod_output =
     bind_err (get_value mod_output ''Mlk_Fat_g'') (\<lambda>Mlk_Fat_g.
     bind_err (getitem milk_prices ''milk_fat_dollar_kg'') (\<lambda>p_fat.
     bind_err (get_value mod_output ''Mlk_NP_g'') (\<lambda>Mlk_NP_g.
     bind_err (getitem milk_prices ''milk_protein_dollar_kg'') (\<lambda>p_prot.
     bind_err (get_value mod_output ''Mlk_Prod'') (\<lambda>MY_kg_d.
     bind_err (getitem milk_prices ''milk_other_solids_production_perc'') (\<lambda>other_perc.
     bind_err (getitem milk_prices ''other_solids_dollar_kg'') (\<lambda>p_other.
       Inr (fmul (fdiv Mlk_Fat_g (lit 1000)) p_fat,
            fmul (fdiv Mlk_NP_g (lit 1000)) p_prot,
            fmul (fmul (fdiv other_perc (lit 100)) MY_kg_d) p_other))))))))"

text \<open>\<open>.filter([...]).assign(...)\<close> on the diet table: three new columns, a new table.\<close>

definition assign_diet :: "(string \<rightharpoonup> double) \<Rightarrow> diet_row list \<Rightarrow> diet_sub_row list" where
  "assign_diet ingredient_prices df =
     (let col_dollar_t_as_fed = series_map ingredient_prices (map Feedstuff df);
          col_dollar_t_DM =
            map (\<lambda>x. fmul x (lit 100)) (map2 fdiv col_dollar_t_as_fed (map Fd_DM df));
          col_dollar_fed_p_d =
            map2 fmul (map (\<lambda>x. fdiv x (lit 1000)) col_dollar_t_DM) (map Fd_DMIn df)
      in map (\<lambda>(r, a, b, c). diet_row.extend r (diet_sub_row.fields a b c))
           (zip df (zip col_dollar_t_as_fed (zip col_dollar_t_DM col_dollar_fed_p_d))))"

definition calc_IOFC_nd ::
  "(string \<rightharpoonup> double) \<Rightarrow> (string \<rightharpoonup> double) \<Rightarrow> ModelOutput \<Rightarrow> py_error + double" where
  "calc_IOFC_nd milk_prices ingredient_prices mod_output =
     bind_err (revenue_nd milk_prices mod_output)
       (\<lambda>(milk_fat_price_p_d, milk_protein_price_p_d, milk_other_solids_price_p_d).
          (let revenue_dollar_per_d =
                 fadd (fadd milk_fat_price_p_d milk_protein_price_p_d)
                      milk_other_solids_price_p_d;
               diet_sub = assign_diet ingredient_prices (diet_info mod_output);
               diet_cost_p_d = nansum (map dollar_fed_p_d diet_sub);
               IOFC = fsub revenue_dollar_per_d diet_cost_p_d
           in Inr IOFC))"

section \<open>The calculators on a store of objects\<close>

text \<open>
  In Python the arguments are references to objects that the caller keeps. The store
  below holds the objects; an address is a position in it. The calculators are written
  once more statement by statement on the store, to show which objects a call creates
  and which it changes: \<open>apply\<close>, \<open>filter\<close> and \<open>assign\<close> each return a new object,
  the assignment \<open>ration_df = ration_df.assign(...)\<close> binds the local name to the new
  table, and a subscript on a dictionary only reads it. An argument that is not of the
  kind the calculator subscripts raises \<open>TypeError\<close>.
\<close>

datatype pyobj =
    Dict_obj "string \<rightharpoonup> double"
  | Ration_obj "ration_row list"
  | Costed_obj "costed_row list"
  | Mask_obj "bool list"
  | Model_obj ModelOutput
  | Diet_obj "diet_row list"
  | Diet_sub_obj "diet_sub_row list"

type_synonym store = "pyobj list"

definition alloc :: "store \<Rightarrow> pyobj \<Rightarrow> nat \<times> store" where
  "alloc h ob = (length h, h @ [ob])"

definition deref :: "store \<Rightarrow> nat \<Rightarrow> pyobj option" where
  "deref h a = (if a < length h then Some (h ! a) else None)"

definition calc_IOFC_manual_st ::
  "store \<Rightarrow> nat \<Rightarrow> nat \<Rightarrow> nat \<Rightarrow> nat \<Rightarrow> bool
     \<Rightarrow> (printed list \<times> (py_error + double)) \<times> store" where
  "calc_IOFC_manual_st h milk_prices milk_components ingredient_prices ration_df verbose =
     (case (deref h milk_prices, deref h milk_components, deref h ingredient_prices,
            deref h ration_df) of
        (Some (Dict_obj mp), Some (Dict_obj mc), Some (Dict_obj ip), Some (Ration_obj df)) \<Rightarrow>
          (case alloc h (Mask_obj (ingredient_validation df)) of (validation, h1) \<Rightarrow>
             if \<not> list_all (\<lambda>b. b) (ingredient_validation df) then
               (([], Inl (ValueError (unmatched_ingredients df))), h1)
             else
               (case component_production mp mc of
                  Inl e \<Rightarrow> (([], Inl e), h1)
                | Inr (MY_kg_d, milk_fat_kg_d, milk_TP_kg_d, milk_other_kg_d) \<Rightarrow>
                   (let out1 = (if verbose
                                then [Print_kg_d milk_fat_kg_d milk_TP_kg_d milk_other_kg_d]
                                else [])
                    in (case revenue_manual mp milk_fat_kg_d milk_TP_kg_d milk_other_kg_d of
                          Inl e \<Rightarrow> ((out1, Inl e), h1)
                        | Inr (milk_fat_dollar_d, milk_protein_dollar_d, milk_other_dollar_d) \<Rightarrow>
                           (let revenue_dollar_per_d =
                                  fadd (fadd milk_fat_dollar_d milk_protein_dollar_d)
                                       milk_other_dollar_d;
                                out2 = out1 @ (if verbose
                                        then [Print_dollar_d milk_fat_dollar_d
                                                milk_protein_dollar_d milk_other_dollar_d,
                                              Print_revenue revenue_dollar_per_d]
                                        else [])
                            in (case alloc h1 (Costed_obj (assign_ration ip df)) of
                                  (ration_df2, h2) \<Rightarrow>
                                   (case deref h2 ration_df2 of
                                      Some (Costed_obj costed) \<Rightarrow>
                                       (let diet_cost_p_d = nansum (map daily_cost costed);
                                            out3 = out2 @ (if verbose
                                                    then [Print_ration costed,
                                                          Print_diet_cost diet_cost_p_d]
                                                    else []);
                                            IOFC = fsub revenue_dollar_per_d diet_cost_p_d;
                                            out4 = out3 @ (if verbose then [Print_IOFC IOFC]
                                                           else [])
                                        in ((out4, Inr IOFC), h2))
                                    | _ \<Rightarrow> ((out2, Inl TypeError), h2))))))))
      | _ \<Rightarrow> (([], Inl TypeError), h))"

definition calc_IOFC_nd_st ::
  "store \<Rightarrow> nat \<Rightarrow> nat \<Rightarrow> nat \<Rightarrow> (py_error + double) \<times> store" where
  "calc_IOFC_nd_st h milk_prices ingredient_prices mod_output =
     (case (deref h milk_prices, deref h ingredient_prices, deref h mod_output) of
        (Some (Dict_obj mp), Some (Dict_obj ip), Some (Model_obj mo)) \<Rightarrow>
          (case revenue_nd mp mo of
             Inl e \<Rightarrow> (Inl e, h)
           | Inr (milk_fat_price_p_d, milk_protein_price_p_d, milk_other_solids_price_p_d) \<Rightarrow>
              (let revenue_dollar_per_d =
                     fadd (fadd milk_fat_price_p_d milk_protein_price_p_d)
                          milk_other_solids_price_p_d
               in (case alloc h (Diet_obj (diet_info mo)) of (filtered, h1) \<Rightarrow>
                   (case alloc h1 (Diet_sub_obj (assign_diet ip (diet_info mo))) of
                      (diet_sub, h2) \<Rightarrow>
                       (case deref h2 diet_sub of
                          Some (Diet_sub_obj sub) \<Rightarrow>
                           (let diet_cost_p_d = nansum (map dollar_fed_p_d sub);
                                IOFC = fsub revenue_dollar_per_d diet_cost_p_d
                            in (Inr IOFC, h2))
                        | _ \<Rightarrow> (Inl TypeError, h2))))))
      | _ \<Rightarrow> (Inl TypeError, h))"

section \<open>The example inputs of the repository\<close>

definition milk_prices :: "string \<rightharpoonup> double" where
  "milk_prices = map_of
     [(''milk_other_solids_production_perc'', lit (57 / 10)),
      (''milk_fat_dollar_kg'', lit (133 / 10)),
      (''milk_protein_dollar_kg'', lit (1096 / 100)),
      (''other_solids_dollar_kg'', lit (9 / 10))]"

definition milk_components :: "string \<rightharpoonup> double" where
  "milk_components = map_of
     [(''MY_kg_d'', lit 31),
      (''Milk_Fat_perc'', lit (36 / 10)),
      (''Milk_TProt_perc'', lit (33 / 10))]"

definition ration_list :: "ration_row list" where
  "ration_list =
     [\<lparr>Ingredient = ''Wheat straw, Elora'', kg_inclusion = lit (5 / 10), DM_perc = lit 90\<rparr>,
      \<lparr>Ingredient = ''Alfalfa Silage'', kg_inclusion = lit (82 / 10), DM_perc = lit 35\<rparr>,
      \<lparr>Ingredient = ''Corn silage, Elora'', kg_inclusion = lit (82 / 10), DM_perc = lit 33\<rparr>,
      \<lparr>Ingredient = ''Corn Grain HM'', kg_inclusion = lit (37 / 10), DM_perc = lit 87\<rparr>,
      \<lparr>Ingredient = ''Soybean meal 47%'', kg_inclusion = lit 2, DM_perc = lit 88\<rparr>,
      \<lparr>Ingredient = ''Canola'', kg_inclusion = lit 1, DM_perc = lit 91\<rparr>,
      \<lparr>Ingredient = ''Vitamin/mineral mix'', kg_inclusion = lit (2 / 10), DM_perc = lit 100\<rparr>]"

text \<open>
  The repository prints no values of the model output it uses. The sample below is a
  model output in the shape the calculator reads, for the examples that follow: the
  fat and protein of the manual example in grams, and a diet of two feedstuffs.
\<close>

definition sample_output :: ModelOutput where
  "sample_output =
     \<lparr>outputs = map_of
        [(''Mlk_Fat_g'', lit 1116), (''Mlk_NP_g'', lit 1023), (''Mlk_Prod'', lit 31)],
      diet_info =
        [\<lparr>Feedstuff = ''Alfalfa Silage'', Fd_DMInp = lit 0.89, Fd_DM = lit 35,
            Fd_DMIn = lit 8.2\<rparr>,
         \<lparr>Feedstuff = ''Canola'', Fd_DMInp = lit 0.11, Fd_DM = lit 91,
            Fd_DMIn = lit 1\<rparr>]\<rparr>"


section \<open>The calculation as the specification words it\<close>

text \<open>
  The specification gives the calculation in formulas on numbers (4.2, steps 1 to 5, and
  4.3): the kilograms of a milk component are \<open>milk_yield * pct / 100\<close>; the revenue is
  \<open>fat * price_fat + true_protein * price_protein + other_solids * price_other\<close>; the
  as-fed price becomes a dry-matter price by \<open>price_asfed / DM_perc * 100\<close>, a price per
  kg by a division by 1000, and the daily cost of a line is the inclusion times that
  price; the total feed cost is the sum of the daily costs of all lines; the result is
  the revenue minus the total feed cost. The definitions below are these formulas on
  rational numbers: nothing is rounded, every line has a price, and every line counts.
\<close>

definition exact_component :: "rat \<Rightarrow> rat \<Rightarrow> rat" where
  "exact_component milk_yield pct = milk_yield * pct / 100"

definition exact_revenue :: "rat \<Rightarrow> rat \<Rightarrow> rat \<Rightarrow> rat \<Rightarrow> rat \<Rightarrow> rat \<Rightarrow> rat" where
  "exact_revenue fat true_protein other_solids price_fat price_protein price_other =
     fat * price_fat + true_protein * price_protein + other_solids * price_other"

definition exact_price_DM :: "rat \<Rightarrow> rat \<Rightarrow> rat" where
  "exact_price_DM price_asfed dm_perc = price_asfed / dm_perc * 100"

definition exact_daily_cost :: "rat \<Rightarrow> rat \<Rightarrow> rat \<Rightarrow> rat" where
  "exact_daily_cost price_asfed kg dm_perc = kg * (exact_price_DM price_asfed dm_perc / 1000)"

definition exact_feed_cost :: "(rat \<times> rat \<times> rat) list \<Rightarrow> rat" where
  "exact_feed_cost lines =
     sum_list (map (\<lambda>(price_asfed, kg, dm_perc). exact_daily_cost price_asfed kg dm_perc) lines)"

section \<open>One row of the tables\<close>

text \<open>
  The cells that \<open>assign\<close> computes for one row of the ration table, in doubles and in
  the order of the source: the price column \<open>price_DM_t\<close> and the column
  \<open>daily_cost\<close>, and what \<open>Series.map\<close> gives for one identifier.
\<close>

definition row_price_DM :: "double \<Rightarrow> double \<Rightarrow> double" where
  "row_price_DM price_asfed dm_perc = fmul (fdiv price_asfed dm_perc) (lit 100)"

definition row_daily_cost :: "double \<Rightarrow> double \<Rightarrow> double \<Rightarrow> double" where
  "row_daily_cost price_asfed kg dm_perc =
     fmul kg (fdiv (row_price_DM price_asfed dm_perc) (lit 1000))"

definition price_or_nan :: "(string \<rightharpoonup> double) \<Rightarrow> string \<Rightarrow> double" where
  "price_or_nan d x = (case d x of None \<Rightarrow> NaN | Some v \<Rightarrow> v)"

section \<open>How close a double is to an exact number\<close>

text \<open>
  One rounding to nearest moves a magnitude in the normal range by at most the factor
  \<open>1 - 2 ^ -53\<close> down or \<open>1 + 2 ^ -53\<close> up. \<open>round_factor\<close> is the inverse of the
  first and exceeds the second. \<open>near e s X\<close> says that the magnitude \<open>s\<close> is within
  \<open>e\<close> such factors of the exact number \<open>X\<close>, both being \<open>>= 0\<close>, and
  \<open>approx e x X\<close> says so of a finite double \<open>x\<close> with the plus sign.
\<close>

definition round_factor :: rat where
  "round_factor = 2 ^ 53 / (2 ^ 53 - 1)"

definition near :: "nat \<Rightarrow> rat \<Rightarrow> rat \<Rightarrow> bool" where
  "near e s X = (0 \<le> s \<and> 0 \<le> X \<and> X \<le> s * round_factor ^ e \<and> s \<le> X * round_factor ^ e)"

fun approx :: "nat \<Rightarrow> double \<Rightarrow> rat \<Rightarrow> bool" where
  "approx e (Finite s m) X = (\<not> s \<and> near e m X)"
| "approx e (Infinity s) X = False"
| "approx e NaN X = False"

text \<open>
  Sizes for which no operation of the calculators overflows or leaves the normal range:
  an exact number that is zero or at least \<open>2 ^ -1000\<close>, and at most \<open>2 ^ 1000\<close>; a
  number that is zero or between \<open>2 ^ -n\<close> and \<open>2 ^ n\<close>; and an input of moderate
  size, a double with the plus sign that is zero or between \<open>2 ^ -100\<close> and
  \<open>2 ^ 100\<close>.
\<close>

definition no_underflow :: "rat \<Rightarrow> bool" where
  "no_underflow X = (X = 0 \<or> 1 / 2 ^ 1000 \<le> X)"

definition in_range :: "rat \<Rightarrow> bool" where
  "in_range X = (no_underflow X \<and> X \<le> 2 ^ 1000)"

definition in_band :: "nat \<Rightarrow> rat \<Rightarrow> bool" where
  "in_band n X = (X = 0 \<or> (1 / 2 ^ n \<le> X \<and> X \<le> 2 ^ n))"

fun moderate :: "double \<Rightarrow> bool" where
  "moderate (Finite s m) = (\<not> s \<and> in_band 100 m)"
| "moderate (Infinity s) = False"
| "moderate NaN = False"

section \<open>Evaluating the model on numerals\<close>

lemma floor_numeral_quot: "\<lfloor>(numeral a :: rat) / numeral b\<rfloor> = numeral a div numeral b"
  by (metis floor_divide_of_int_eq of_int_numeral)

lemmas float_eval =
  round_val_def round_dbl_def round_mag_def check_overflow_def round_to_def quantum_def
  ilog2_def neg_exponent_def rne_def nearest_def pow2_def compute_bitlen floor_numeral_quot

lemma lit_100: "lit 100 = Finite False 100"
  by (simp add: lit_def float_eval)

lemma lit_1000: "lit 1000 = Finite False 1000"
  by (simp add: lit_def float_eval)

lemma price_table_values:
  "ingredient_prices_asfed_tonne = map_of
     [(''Wheat straw, Elora'', Finite False 200),
      (''Alfalfa Silage'', Finite False 230),
      (''Corn silage, Elora'', Finite False 180),
      (''Corn Grain HM'', Finite False 250),
      (''Soy Plus'', Finite False 700),
      (''Soybean meal 47%'', Finite False 600),
      (''Canola'', Finite False 600),
      (''Wheat Shorts'', Finite False 250),
      (''Tallow'', Finite False 500),
      (''Sodium chloride (salt)'', Finite False 1000),
      (''Limestone calcium carbonate'', Finite False 1000),
      (''Monocalcium phosphate(Dical)'', Finite False 1000),
      (''Magnesium oxide, Elora'', Finite False 1000),
      (''Diamond V yeast'', Finite False 2000),
      (''DCAD+ (Potassium carbonate)'', Finite False 1000),
      (''Metasmart'', Finite False 2000),
      (''Vitamin/mineral mix'', Finite False 2000)]"
  by (simp add: ingredient_prices_asfed_tonne_def lit_def float_eval)

lemma milk_prices_values:
  "milk_prices = map_of
     [(''milk_other_solids_production_perc'', Finite False (6417629469002957 / 1125899906842624)),
      (''milk_fat_dollar_kg'', Finite False (3743617190251725 / 281474976710656)),
      (''milk_protein_dollar_kg'', Finite False (1542482872374395 / 140737488355328)),
      (''other_solids_dollar_kg'', Finite False (8106479329266893 / 9007199254740992))]"
  by (simp add: milk_prices_def lit_def float_eval)

lemma milk_components_values:
  "milk_components = map_of
     [(''MY_kg_d'', Finite False 31),
      (''Milk_Fat_perc'', Finite False (8106479329266893 / 2251799813685248)),
      (''Milk_TProt_perc'', Finite False (3715469692580659 / 1125899906842624))]"
  by (simp add: milk_components_def lit_def float_eval)

lemma ration_list_values:
  "ration_list =
     [\<lparr>Ingredient = ''Wheat straw, Elora'', kg_inclusion = Finite False (1 / 2), DM_perc = Finite False 90\<rparr>,
      \<lparr>Ingredient = ''Alfalfa Silage'', kg_inclusion = Finite False (2308094809027379 / 281474976710656), DM_perc = Finite False 35\<rparr>,
      \<lparr>Ingredient = ''Corn silage, Elora'', kg_inclusion = Finite False (2308094809027379 / 281474976710656), DM_perc = Finite False 33\<rparr>,
      \<lparr>Ingredient = ''Corn Grain HM'', kg_inclusion = Finite False (4165829655317709 / 1125899906842624), DM_perc = Finite False 87\<rparr>,
      \<lparr>Ingredient = ''Soybean meal 47%'', kg_inclusion = Finite False 2, DM_perc = Finite False 88\<rparr>,
      \<lparr>Ingredient = ''Canola'', kg_inclusion = Finite False 1, DM_perc = Finite False 91\<rparr>,
      \<lparr>Ingredient = ''Vitamin/mineral mix'', kg_inclusion = Finite False (3602879701896397 / 18014398509481984), DM_perc = Finite False 100\<rparr>]"
  by (simp add: ration_list_def lit_def float_eval)

lemma pairwise_sum_short: "length a < 8 \<Longrightarrow> pairwise_sum a = add_seq (Finite False 0) a"
  by (simp add: pairwise_sum.simps)

lemmas sum_eval = nansum_def pairwise_sum_short

section \<open>Powers of two and the exponent of a magnitude\<close>

lemma pow2_powi: "pow2 t = 2 powi t"
proof (cases "0 \<le> t")
  case True
  then show ?thesis by (simp add: pow2_def power_int_nonneg_exp)
next
  case False
  then have n: "0 \<le> - t" by simp
  have "(2::rat) powi t = 2 powi (- (- t))" by simp
  also have "\<dots> = 1 / 2 powi (- t)" by (rule power_int_minus_divide)
  also have "\<dots> = 1 / 2 ^ nat (- t)" by (simp only: power_int_nonneg_exp [OF n])
  finally show ?thesis using False by (simp add: pow2_def)
qed

lemma pow2_pos [simp]: "0 < pow2 t"
  by (simp add: pow2_powi)

lemma pow2_nonzero [simp]: "pow2 t \<noteq> 0"
  using pow2_pos [of t] by (simp del: pow2_pos)

lemma pow2_nonneg [simp]: "0 \<le> pow2 t"
  using pow2_pos [of t] by (simp del: pow2_pos)

lemma pow2_add: "pow2 (a + b) = pow2 a * pow2 b"
  by (simp add: pow2_powi power_int_add)

lemma pow2_mono: "a \<le> b \<Longrightarrow> pow2 a \<le> pow2 b"
  by (simp add: pow2_powi power_int_increasing)

lemma pow2_strict_mono: "a < b \<Longrightarrow> pow2 a < pow2 b"
  by (simp add: pow2_powi power_int_strict_increasing)

lemma pow2_less_cancel: "pow2 a < pow2 b \<Longrightarrow> a < b"
  using pow2_mono [of b a] by (cases "a < b") auto

lemma pow2_nat: "0 \<le> t \<Longrightarrow> pow2 t = 2 ^ nat t"
  by (simp add: pow2_def)

lemma pow2_neg: "0 \<le> t \<Longrightarrow> pow2 (- t) = 1 / 2 ^ nat t"
  by (cases "t = 0") (simp_all add: pow2_def)

lemma ilog2_bounds:
  assumes "0 < q"
  shows "pow2 (ilog2 q) \<le> q \<and> q < pow2 (ilog2 q + 1)"
proof (cases "1 \<le> q")
  case True
  let ?n = "\<lfloor>q\<rfloor>"
  have n: "0 < ?n" using True by simp
  have b1: "1 \<le> bitlen ?n"
    using n bitlen_eq_zero_iff [of ?n] bitlen_nonneg [of ?n] by linarith
  have e: "ilog2 q = bitlen ?n - 1" using True by (simp add: ilog2_def)
  from bitlen_bounds [OF n]
  have lo: "2 ^ nat (bitlen ?n - 1) \<le> ?n" and hi: "?n < 2 ^ nat (bitlen ?n)" by auto
  have "(2::rat) ^ nat (bitlen ?n - 1) = of_int (2 ^ nat (bitlen ?n - 1))" by simp
  also have "\<dots> \<le> of_int ?n" using lo by (simp only: of_int_le_iff)
  also have "\<dots> \<le> q" by simp
  finally have l: "pow2 (ilog2 q) \<le> q" using b1 by (simp add: e pow2_nat)
  have "?n + 1 \<le> 2 ^ nat (bitlen ?n)" using hi by simp
  then have "(of_int (?n + 1) :: rat) \<le> of_int (2 ^ nat (bitlen ?n))" by (simp only: of_int_le_iff)
  moreover have "q < of_int (?n + 1)" by linarith
  ultimately have "q < 2 ^ nat (bitlen ?n)" by simp
  then have u: "q < pow2 (ilog2 q + 1)" using b1 by (simp add: e pow2_nat)
  show ?thesis using l u by simp
next
  case False
  let ?n = "\<lfloor>1 / q\<rfloor>"
  let ?b = "bitlen ?n"
  have x: "1 < 1 / q" using False assms by simp
  have n: "0 < ?n" using x by simp
  have b1: "1 \<le> ?b"
    using n bitlen_eq_zero_iff [of ?n] bitlen_nonneg [of ?n] by linarith
  from bitlen_bounds [OF n]
  have lo: "2 ^ nat (?b - 1) \<le> ?n" and hi: "?n < 2 ^ nat ?b" by auto
  have "(2::rat) ^ nat (?b - 1) = of_int (2 ^ nat (?b - 1))" by simp
  also have "\<dots> \<le> of_int ?n" using lo by (simp only: of_int_le_iff)
  also have "\<dots> \<le> 1 / q" by simp
  finally have l1: "q * 2 ^ nat (?b - 1) \<le> 1"
    using assms by (simp add: field_simps)
  have "?n + 1 \<le> 2 ^ nat ?b" using hi by simp
  then have "(of_int (?n + 1) :: rat) \<le> of_int (2 ^ nat ?b)" by (simp only: of_int_le_iff)
  moreover have "1 / q < of_int (?n + 1)" by linarith
  ultimately have "1 / q < 2 ^ nat ?b" by simp
  then have u1: "1 < q * 2 ^ nat ?b" using assms by (simp add: field_simps)
  have pb: "pow2 (- ?b) = 1 / 2 ^ nat ?b" using b1 by (simp add: pow2_neg)
  have pl: "pow2 (1 - ?b) = 1 / 2 ^ nat (?b - 1)"
    using b1 pow2_neg [of "?b - 1"] by simp
  show ?thesis
  proof (cases "q * 2 ^ nat (?b - 1) = 1")
    case True
    then have e: "ilog2 q = 1 - ?b" using False by (simp add: ilog2_def neg_exponent_def)
    have "q = pow2 (1 - ?b)" using True by (simp add: pl field_simps)
    then show ?thesis using e pow2_strict_mono [of "1 - ?b" "1 - ?b + 1"] by simp
  next
    case neq: False
    then have e: "ilog2 q = - ?b" using False by (simp add: ilog2_def neg_exponent_def)
    have "pow2 (- ?b) < q" using u1 by (simp add: pb field_simps)
    moreover have "q < pow2 (- ?b + 1)"
    proof -
      have "q * 2 ^ nat (?b - 1) < 1" using l1 neq by simp
      then have "q < pow2 (1 - ?b)" by (simp add: pl field_simps)
      then show ?thesis by (simp add: add.commute)
    qed
    ultimately show ?thesis using e by simp
  qed
qed


lemma ilog2_le: "0 < q \<Longrightarrow> q < pow2 (k + 1) \<Longrightarrow> ilog2 q \<le> k"
  using ilog2_bounds [of q] pow2_less_cancel [of "ilog2 q" "k + 1"] by simp

lemma ilog2_ge: "0 < q \<Longrightarrow> pow2 k \<le> q \<Longrightarrow> k \<le> ilog2 q"
  using ilog2_bounds [of q] pow2_less_cancel [of k "ilog2 q + 1"] by simp

lemma rne_error: "\<bar>of_int (rne m) - m\<bar> \<le> 1 / 2"
proof -
  have "of_int \<lfloor>m\<rfloor> \<le> m" "m < of_int \<lfloor>m\<rfloor> + 1" by linarith+
  then show ?thesis by (auto simp: rne_def nearest_def)
qed

lemma rne_nonneg: "0 \<le> m \<Longrightarrow> 0 \<le> rne m"
  by (auto simp: rne_def nearest_def)

lemma rne_of_int: "rne (of_int k) = k"
  by (simp add: rne_def nearest_def)

lemma rne_le: "m \<le> of_int k \<Longrightarrow> rne m \<le> k"
proof (cases "m = of_int k")
  case True
  then show ?thesis by (simp add: rne_of_int)
next
  case False
  assume "m \<le> of_int k"
  with False have "m < of_int k" by simp
  then have "\<lfloor>m\<rfloor> < k" by (simp add: floor_less_iff)
  then show ?thesis by (auto simp: rne_def nearest_def)
qed

lemma round_to_nonneg: "0 \<le> q \<Longrightarrow> 0 \<le> round_to (pow2 t) q"
proof -
  assume "0 \<le> q"
  then have "0 \<le> q / pow2 t" by (simp add: divide_nonneg_pos)
  then have "0 \<le> rne (q / pow2 t)" by (rule rne_nonneg)
  then show ?thesis by (simp add: round_to_def)
qed

lemma round_mag_nonneg: "0 \<le> q \<Longrightarrow> round_mag q = Some r \<Longrightarrow> 0 \<le> r"
  using round_to_nonneg [of q "max (ilog2 q - 52) (- 1074)"]
  by (auto simp: round_mag_def check_overflow_def quantum_def split: if_splits)

lemma round_mag_bounded:
  assumes "0 < q" and "q \<le> of_int k * pow2 j" and "ilog2 q - 52 \<le> j" and "- 1074 \<le> j"
    and "of_int k * pow2 j < 2 ^ 1024"
  shows "\<exists>r. round_mag q = Some r \<and> 0 \<le> r \<and> r \<le> of_int k * pow2 j"
proof -
  define t where "t = max (ilog2 q - 52) (- 1074)"
  have tj: "t \<le> j" using assms(3,4) by (simp add: t_def)
  have u: "quantum q = pow2 t" by (simp add: quantum_def t_def)
  have split: "pow2 j = pow2 (j - t) * pow2 t"
    using pow2_add [of "j - t" t] by simp
  have int: "pow2 (j - t) = of_int (2 ^ nat (j - t))"
    using tj by (simp add: pow2_nat)
  have "q / pow2 t \<le> of_int k * pow2 (j - t)"
    using assms(2) by (simp add: split field_simps)
  then have "q / pow2 t \<le> of_int (k * 2 ^ nat (j - t))"
    by (simp add: int)
  then have n: "rne (q / pow2 t) \<le> k * 2 ^ nat (j - t)"
    by (rule rne_le)
  define r where "r = round_to (pow2 t) q"
  have "r = of_int (rne (q / pow2 t)) * pow2 t" by (simp add: r_def round_to_def)
  also have "\<dots> \<le> of_int (k * 2 ^ nat (j - t)) * pow2 t"
    using n by (simp only: mult_le_cancel_right_pos [OF pow2_pos] of_int_le_iff)
  also have "\<dots> = of_int k * pow2 j" by (simp add: split int)
  finally have le: "r \<le> of_int k * pow2 j" .
  have nn: "0 \<le> r"
    using assms(1) round_to_nonneg [of q t] by (simp add: r_def)
  have "round_mag q = Some r"
    using assms(1,5) le by (simp add: round_mag_def check_overflow_def u r_def)
  then show ?thesis using le nn by simp
qed

lemma round_mag_error:
  assumes "pow2 (- 1022) \<le> q" and "q \<le> 2 ^ 1023"
  shows "\<exists>r. round_mag q = Some r \<and> \<bar>r - q\<bar> \<le> q / 2 ^ 53"
proof -
  have q: "0 < q" using assms(1) pow2_pos [of "- 1022"] by linarith
  define e where "e = ilog2 q"
  have e: "- 1022 \<le> e" using ilog2_ge [OF q assms(1)] by (simp add: e_def)
  have u: "quantum q = pow2 (e - 52)" using e by (simp add: quantum_def e_def)
  define r where "r = round_to (pow2 (e - 52)) q"
  have r: "r = of_int (rne (q / pow2 (e - 52))) * pow2 (e - 52)"
    by (simp add: r_def round_to_def)
  have "r - q = (of_int (rne (q / pow2 (e - 52))) - q / pow2 (e - 52)) * pow2 (e - 52)"
    by (simp add: r left_diff_distrib)
  then have "\<bar>r - q\<bar> = \<bar>of_int (rne (q / pow2 (e - 52))) - q / pow2 (e - 52)\<bar> * pow2 (e - 52)"
    by (simp only: abs_mult abs_of_pos [OF pow2_pos])
  also have "\<dots> \<le> 1 / 2 * pow2 (e - 52)"
    using rne_error [of "q / pow2 (e - 52)"] by (simp only: mult_le_cancel_right_pos [OF pow2_pos])
  also have "\<dots> = pow2 e / 2 ^ 53"
    using pow2_add [of "e - 52" 52] by (simp add: pow2_nat)
  also have "\<dots> \<le> q / 2 ^ 53"
    using ilog2_bounds [OF q] by (simp add: e_def divide_right_mono)
  finally have err: "\<bar>r - q\<bar> \<le> q / 2 ^ 53" .
  have "r \<le> q + q / 2 ^ 53" using err by linarith
  also have "\<dots> \<le> 2 ^ 1023 + 2 ^ 1023 / 2 ^ 53" using assms(2) by (simp add: add_mono divide_right_mono)
  also have "\<dots> < 2 ^ 1024" by simp
  finally have "r < 2 ^ 1024" .
  then have "round_mag q = Some r"
    using q by (simp add: round_mag_def check_overflow_def u r_def)
  then show ?thesis using err by simp
qed

section \<open>Rounding keeps signs and bounds\<close>

lemma round_mag_zero [simp]: "round_mag 0 = Some 0"
  by (simp add: round_mag_def)

lemma round_mag_le_one:
  assumes "0 \<le> q" and "q \<le> 1"
  shows "\<exists>r. round_mag q = Some r \<and> 0 \<le> r \<and> r \<le> 1"
proof (cases "q = 0")
  case True
  then show ?thesis by simp
next
  case False
  then have q: "0 < q" using assms(1) by simp
  have "q < pow2 (0 + 1)" using assms(2) by (simp add: pow2_def)
  then have "ilog2 q \<le> 0" by (rule ilog2_le [OF q])
  then have "ilog2 q - 52 \<le> 0" by simp
  with round_mag_bounded [of q 1 0] q assms(2) show ?thesis by (simp add: pow2_def)
qed

lemma max_double_less: "max_double < 2 ^ 1024"
  by (simp add: max_double_def)

lemma round_mag_le_max:
  assumes "0 \<le> q" and "q \<le> max_double"
  shows "\<exists>r. round_mag q = Some r \<and> 0 \<le> r \<and> r \<le> max_double"
proof (cases "q = 0")
  case True
  then show ?thesis by (simp add: max_double_def)
next
  case False
  then have q: "0 < q" using assms(1) by simp
  have m: "max_double = of_int (2 ^ 53 - 1) * pow2 971"
    by (simp add: max_double_def pow2_def)
  have "q < pow2 (1023 + 1)" using assms(2) max_double_less by (simp add: pow2_def)
  then have "ilog2 q \<le> 1023" by (rule ilog2_le [OF q])
  then have "ilog2 q - 52 \<le> 971" by simp
  with round_mag_bounded [of q "2 ^ 53 - 1" 971] q assms(2) max_double_less
  show ?thesis by (simp add: m)
qed

lemma fge0_round_dbl: "0 \<le> q \<Longrightarrow> (s \<longrightarrow> q = 0) \<Longrightarrow> fge0 (round_dbl s q)"
  by (cases "q = 0") (auto simp: round_dbl_def round_mag_nonneg split: option.splits)

lemma fge0_fadd: "fge0 a \<Longrightarrow> fge0 b \<Longrightarrow> fge0 (fadd a b)"
  by (cases a; cases b) (auto simp: round_val_def intro!: fge0_round_dbl)

lemma fge0_fmul: "fge0 a \<Longrightarrow> fge0 b \<Longrightarrow> fge0 (fmul a b) \<or> isnan (fmul a b)"
  by (cases a; cases b) (auto intro!: fge0_round_dbl)

lemma fge0_fdiv: "fge0 a \<Longrightarrow> dm_percentage b \<Longrightarrow> fge0 (fdiv a b)"
  by (cases a; cases b) (auto intro!: fge0_round_dbl)

lemma finite_ge0_fge0: "finite_ge0 a \<Longrightarrow> fge0 a"
  by (cases a) auto

lemma fdiv_100_le_one:
  assumes "percentage p"
  shows "\<exists>s m. fdiv p (lit 100) = Finite s m \<and> 0 \<le> m \<and> m \<le> 1 \<and> (s \<longrightarrow> m = 0)"
proof -
  from assms obtain s m where p: "p = Finite s m" and m: "0 \<le> m" "m \<le> 100" "s \<longrightarrow> m = 0"
    by (cases p) (auto simp: percentage_def split: if_splits)
  have "0 \<le> m / 100" "m / 100 \<le> 1" using m by simp_all
  from round_mag_le_one [OF this] obtain r where
    r: "round_mag (m / 100) = Some r" "0 \<le> r" "r \<le> 1" by blast
  have "s \<longrightarrow> r = 0" using m(3) r(1) by auto
  then show ?thesis using r by (simp add: p lit_100 round_dbl_def)
qed

lemma fmul_fraction_finite:
  assumes "0 \<le> m" and "m \<le> 1" and "s \<longrightarrow> m = 0" and "finite_ge0 y"
  shows "finite_ge0 (fmul (Finite s m) y)"
proof -
  from assms(4) obtain s' m' where y: "y = Finite s' m'"
    and m': "0 \<le> m'" "m' \<le> max_double" "s' \<longrightarrow> m' = 0"
    by (cases y) auto
  have "m * m' \<le> 1 * m'" using assms(2) m'(1) by (rule mult_right_mono)
  then have "0 \<le> m * m'" "m * m' \<le> max_double" using assms(1) m' by simp_all
  from round_mag_le_max [OF this] obtain r where
    r: "round_mag (m * m') = Some r" "0 \<le> r" "r \<le> max_double" by blast
  have "(s \<noteq> s') \<longrightarrow> r = 0" using assms(3) m'(3) r(1) by auto
  then show ?thesis using r by (simp add: y round_dbl_def)
qed

lemma component_kg_finite:
  "percentage p \<Longrightarrow> finite_ge0 MY \<Longrightarrow> finite_ge0 (fmul (fdiv p (lit 100)) MY)"
  using fdiv_100_le_one [of p] fmul_fraction_finite by auto

lemma fdiv_1000_finite:
  assumes "finite_ge0 g"
  shows "finite_ge0 (fdiv g (lit 1000))"
proof -
  from assms obtain s m where g: "g = Finite s m"
    and m: "0 \<le> m" "m \<le> max_double" "s \<longrightarrow> m = 0"
    by (cases g) auto
  have "0 \<le> m / 1000" "m / 1000 \<le> max_double" using m by simp_all
  from round_mag_le_max [OF this] obtain r where
    r: "round_mag (m / 1000) = Some r" "0 \<le> r" "r \<le> max_double" by blast
  have "s \<longrightarrow> r = 0" using m(3) r(1) by auto
  then show ?thesis using r by (simp add: g lit_1000 round_dbl_def)
qed

lemma fge0_fmul_finite_ge0: "finite_ge0 a \<Longrightarrow> finite_ge0 b \<Longrightarrow> fge0 (fmul a b)"
  by (cases a; cases b) (auto intro!: fge0_round_dbl)

lemma revenue_ge0:
  assumes "finite_ge0 a" "finite_ge0 b" "finite_ge0 c"
    and "finite_ge0 pa" "finite_ge0 pb" "finite_ge0 pc"
  shows "fge0 (fadd (fadd (fmul a pa) (fmul b pb)) (fmul c pc))"
  using assms by (intro fge0_fadd fge0_fmul_finite_ge0)

lemma fge0_add_seq: "fge0 res \<Longrightarrow> \<forall>x \<in> set xs. fge0 x \<Longrightarrow> fge0 (add_seq res xs)"
  by (induction xs arbitrary: res) (simp_all add: fge0_fadd)

lemma fge0_acc8:
  "\<forall>x \<in> set r. fge0 x \<Longrightarrow> \<forall>x \<in> set xs. fge0 x \<Longrightarrow> acc8 r xs = (r', rest) \<Longrightarrow> length r = 8
     \<Longrightarrow> (\<forall>x \<in> set r'. fge0 x) \<and> (\<forall>x \<in> set rest. fge0 x) \<and> length r' = 8"
proof (induction r xs rule: acc8.induct)
  case (1 r xs)
  show ?case
  proof (cases "8 \<le> length xs")
    case True
    have a: "\<forall>x \<in> set (map2 fadd r (take 8 xs)). fge0 x"
    proof
      fix x
      assume "x \<in> set (map2 fadd r (take 8 xs))"
      then obtain u v where uv: "(u, v) \<in> set (zip r (take 8 xs))" and x: "x = fadd u v"
        by auto
      from uv have "u \<in> set r" and "v \<in> set (take 8 xs)"
        by (auto dest: set_zip_leftD set_zip_rightD)
      then have "fge0 u" and "fge0 v"
        using "1.prems"(1,2) by (auto dest: in_set_takeD)
      then show "fge0 x" by (simp add: x fge0_fadd)
    qed
    have b: "\<forall>x \<in> set (drop 8 xs). fge0 x" using "1.prems"(2) by (auto dest: in_set_dropD)
    have c: "length (map2 fadd r (take 8 xs)) = 8" using True "1.prems"(4) by simp
    have d: "acc8 (map2 fadd r (take 8 xs)) (drop 8 xs) = (r', rest)"
      using "1.prems"(3) True by (simp add: acc8.simps [of r xs])
    show ?thesis using "1.IH" [OF True a b d c] .
  next
    case False
    then show ?thesis using "1.prems" by (simp add: acc8.simps [of r xs])
  qed
qed


lemma fge0_block_sum:
  assumes "\<forall>x \<in> set a. fge0 x" and "8 \<le> length a"
  shows "fge0 (block_sum a)"
proof -
  obtain r rest where ar: "acc8 (take 8 a) (drop 8 a) = (r, rest)"
    by (cases "acc8 (take 8 a) (drop 8 a)")
  have t: "\<forall>x \<in> set (take 8 a). fge0 x" using assms(1) by (auto dest: in_set_takeD)
  have d: "\<forall>x \<in> set (drop 8 a). fge0 x" using assms(1) by (auto dest: in_set_dropD)
  have l: "length (take 8 a) = 8" using assms(2) by simp
  from fge0_acc8 [OF t d ar l]
  have r: "\<forall>x \<in> set r. fge0 x" and rest: "\<forall>x \<in> set rest. fge0 x" and len: "length r = 8"
    by auto
  have "fge0 (r ! i)" if "i < 8" for i using r len that by simp
  then have "fge0 (fadd (fadd (fadd (r ! 0) (r ! 1)) (fadd (r ! 2) (r ! 3)))
                (fadd (fadd (r ! 4) (r ! 5)) (fadd (r ! 6) (r ! 7))))"
    by (intro fge0_fadd) simp_all
  then show ?thesis using rest by (simp add: block_sum_def ar fge0_add_seq)
qed

lemma fge0_pairwise_sum: "\<forall>x \<in> set a. fge0 x \<Longrightarrow> fge0 (pairwise_sum a)"
proof (induction a rule: pairwise_sum.induct)
  case (1 a)
  show ?case
  proof (cases "length a < 8")
    case True
    then show ?thesis
      using "1.prems" by (simp add: pairwise_sum.simps [of a] fge0_add_seq)
  next
    case False
    show ?thesis
    proof (cases "length a \<le> 128")
      case True
      then show ?thesis
        using False "1.prems" by (simp add: pairwise_sum.simps [of a] fge0_block_sum)
    next
      case big: False
      define n2 where "n2 = length a div 2 - (length a div 2) mod 8"
      have t: "\<forall>x \<in> set (take n2 a). fge0 x" using "1.prems" by (auto dest: in_set_takeD)
      have d: "\<forall>x \<in> set (drop n2 a). fge0 x" using "1.prems" by (auto dest: in_set_dropD)
      have "fge0 (pairwise_sum (take n2 a))"
        using "1.IH"(1) [OF False big n2_def t] .
      moreover have "fge0 (pairwise_sum (drop n2 a))"
        using "1.IH"(2) [OF False big n2_def d] .
      ultimately show ?thesis
        using False big by (simp add: pairwise_sum.simps [of a] Let_def n2_def fge0_fadd)
    qed
  qed
qed

lemma fge0_nansum: "\<forall>x \<in> set xs. fge0 x \<or> isnan x \<Longrightarrow> fge0 (nansum xs)"
proof -
  assume a: "\<forall>x \<in> set xs. fge0 x \<or> isnan x"
  have "\<forall>x \<in> set (map (\<lambda>x. if isnan x then Finite False 0 else x) xs). fge0 x"
    using a by auto
  then have "fge0 (pairwise_sum (map (\<lambda>x. if isnan x then Finite False 0 else x) xs))"
    by (rule fge0_pairwise_sum)
  then show ?thesis by (simp add: nansum_def fge0_fadd)
qed

lemma row_daily_cost_ge0:
  assumes "finite_ge0 p" and "finite_ge0 kg" and "dm_percentage dm"
  shows "fge0 (row_daily_cost p kg dm) \<or> isnan (row_daily_cost p kg dm)"
proof -
  have 1: "fge0 (fdiv p dm)" using assms(1,3) by (simp add: fge0_fdiv finite_ge0_fge0)
  have h: "fge0 (fmul x (Finite False 100))" if "fge0 x" for x
    using that by (cases x) (auto intro!: fge0_round_dbl)
  have k: "fge0 (fdiv x (Finite False 1000))" if "fge0 x" for x
    using that by (cases x) (auto intro!: fge0_round_dbl)
  have "fge0 (fdiv (fmul (fdiv p dm) (lit 100)) (lit 1000))"
    using 1 by (simp add: lit_100 lit_1000 h k)
  then show ?thesis
    unfolding row_daily_cost_def row_price_DM_def
    using assms(2) by (intro fge0_fmul) (simp_all add: finite_ge0_fge0)
qed

lemma feed_cost_ge0:
  assumes "\<forall>x \<in> set xs. finite_ge0 (fp x) \<and> finite_ge0 (fk x) \<and> dm_percentage (fd x)"
  shows "fge0 (nansum (map (\<lambda>x. row_daily_cost (fp x) (fk x) (fd x)) xs))"
proof -
  have "\<forall>c \<in> set (map (\<lambda>x. row_daily_cost (fp x) (fk x) (fd x)) xs). fge0 c \<or> isnan c"
    using assms by (auto simp: row_daily_cost_ge0)
  then show ?thesis by (rule fge0_nansum)
qed

section \<open>The dry-matter adjustment at 100 per cent\<close>

lemma round_mag_int:
  assumes "0 \<le> k" and "(of_int k :: rat) < 2 ^ 53"
  shows "round_mag (of_int k) = Some (of_int k)"
proof (cases "k = 0")
  case True
  then show ?thesis by simp
next
  case False
  define q :: rat where "q = of_int k"
  have q: "0 < q" and q1: "1 \<le> q" using assms(1) False by (simp_all add: q_def)
  define e where "e = ilog2 q"
  have "pow2 0 \<le> q" using q1 by (simp add: pow2_def)
  then have e0: "0 \<le> e" unfolding e_def by (rule ilog2_ge [OF q])
  have "q < pow2 (52 + 1)" using assms(2) by (simp add: pow2_def q_def)
  then have e52: "e \<le> 52" unfolding e_def by (rule ilog2_le [OF q])
  define n where "n = nat (52 - e)"
  have u: "quantum q = 1 / 2 ^ n"
    using e0 e52 pow2_neg [of "52 - e"] by (simp add: quantum_def e_def [symmetric] n_def)
  have "q / quantum q = of_int (k * 2 ^ n)" unfolding u by (simp add: q_def)
  then have "rne (q / quantum q) = k * 2 ^ n" by (simp only: rne_of_int)
  then have "round_to (quantum q) q = of_int (k * 2 ^ n) * quantum q"
    by (simp only: round_to_def)
  also have "\<dots> = q" unfolding u by (simp add: q_def)
  finally have r: "round_to (quantum q) q = q" .
  have "q < 2 ^ 1024" using assms(2) by (simp add: q_def)
  then have "round_mag q = Some q"
    using q by (simp add: round_mag_def check_overflow_def r)
  then show ?thesis by (simp add: q_def)
qed

lemma price_DM_100_exact:
  assumes "0 \<le> k" and "p = 100 * of_int k" and "p < 2 ^ 53"
  shows "row_price_DM (Finite False p) (lit 100) = Finite False p"
proof -
  have k: "(of_int k :: rat) < 2 ^ 53" using assms by simp
  have p: "p = of_int (k * 100)" using assms(2) by simp
  have 1: "round_mag (of_int k) = Some (of_int k)" using assms(1) k by (rule round_mag_int)
  have 2: "round_mag (of_int (k * 100)) = Some (of_int (k * 100))"
    using assms by (intro round_mag_int) simp_all
  have "fdiv (Finite False p) (Finite False 100) = Finite False (of_int k)"
    using 1 by (simp add: assms(2) round_dbl_def)
  moreover have "fmul (Finite False (of_int k)) (Finite False 100) = Finite False p"
    using 2 by (simp add: p round_dbl_def)
  ultimately show ?thesis by (simp add: row_price_DM_def lit_100)
qed

lemma price_DM_100_error:
  assumes "1 / 2 ^ 1000 \<le> p" and "p \<le> 2 ^ 1000"
  shows "\<exists>z. row_price_DM (Finite False p) (lit 100) = Finite False z
           \<and> \<bar>z - p\<bar> \<le> p / 2 ^ 52 + p / 2 ^ 106"
proof -
  have p0: "0 < p" using assms(1) by (rule less_le_trans [rotated]) simp
  have lo: "pow2 (- 1022) \<le> p / 100"
  proof -
    have "pow2 (- 1022) = 1 / 2 ^ 1022" by (simp add: pow2_def)
    also have "\<dots> \<le> (1 / 2 ^ 1000) / 100" by simp
    also have "\<dots> \<le> p / 100" using assms(1) by (rule divide_right_mono) simp
    finally show ?thesis .
  qed
  have hi: "p / 100 \<le> 2 ^ 1023"
  proof -
    have "p / 100 \<le> p" using p0 by simp
    also have "\<dots> \<le> 2 ^ 1000" by (rule assms(2))
    also have "\<dots> \<le> (2::rat) ^ 1023" by simp
    finally show ?thesis .
  qed
  from round_mag_error [OF lo hi] obtain y where
    y: "round_mag (p / 100) = Some y" and ye: "\<bar>y - p / 100\<bar> \<le> p / 100 / 2 ^ 53" by blast
  have "y * 100 - p = (y - p / 100) * 100" by (simp add: algebra_simps)
  then have "\<bar>y * 100 - p\<bar> = \<bar>y - p / 100\<bar> * 100" by (simp only: abs_mult)
  also have "\<dots> \<le> p / 100 / 2 ^ 53 * 100" using ye by (rule mult_right_mono) simp
  also have "\<dots> = p / 2 ^ 53" by simp
  finally have ye': "\<bar>y * 100 - p\<bar> \<le> p / 2 ^ 53" .
  then have y1: "y * 100 \<le> p + p / 2 ^ 53" and y2: "p - p / 2 ^ 53 \<le> y * 100"
    by (simp_all only: abs_le_iff) linarith+
  have lo2: "pow2 (- 1022) \<le> y * 100"
  proof -
    have "pow2 (- 1022) = 1 / 2 ^ 1022" by (simp add: pow2_def)
    also have "\<dots> \<le> 1 / 2 ^ 1000 - 1 / 2 ^ 1000 / 2 ^ 53" by simp
    also have "\<dots> = (1 / 2 ^ 1000) * (1 - 1 / 2 ^ 53)" by (simp add: algebra_simps)
    also have "\<dots> \<le> p * (1 - 1 / 2 ^ 53)" using assms(1) by (rule mult_right_mono) simp
    also have "\<dots> = p - p / 2 ^ 53" by (simp add: algebra_simps)
    also have "\<dots> \<le> y * 100" by (rule y2)
    finally show ?thesis .
  qed
  have hi2: "y * 100 \<le> 2 ^ 1023"
  proof -
    have "p + p / 2 ^ 53 \<le> p + p" using p0 by simp
    also have "\<dots> \<le> 2 ^ 1000 + 2 ^ 1000" using assms(2) by simp
    also have "\<dots> \<le> (2::rat) ^ 1023" by simp
    finally show ?thesis using y1 by simp
  qed
  from round_mag_error [OF lo2 hi2] obtain z where
    z: "round_mag (y * 100) = Some z" and ze: "\<bar>z - y * 100\<bar> \<le> y * 100 / 2 ^ 53" by blast
  have "\<bar>z - p\<bar> \<le> \<bar>z - y * 100\<bar> + \<bar>y * 100 - p\<bar>" by simp
  also have "\<dots> \<le> y * 100 / 2 ^ 53 + p / 2 ^ 53"
    using ze ye' by (rule add_mono)
  also have "\<dots> \<le> (p + p / 2 ^ 53) / 2 ^ 53 + p / 2 ^ 53"
    using y1 by (simp add: divide_right_mono)
  also have "\<dots> = p / 2 ^ 52 + p / 2 ^ 106" by (simp add: field_simps)
  finally have e: "\<bar>z - p\<bar> \<le> p / 2 ^ 52 + p / 2 ^ 106" .
  have "fdiv (Finite False p) (Finite False 100) = Finite False y"
    using y by (simp add: round_dbl_def)
  moreover have "fmul (Finite False y) (Finite False 100) = Finite False z"
    using z by (simp add: round_dbl_def)
  ultimately show ?thesis using e by (simp add: row_price_DM_def lit_100)
qed

section \<open>The tables row by row\<close>

lemma fmul_commute: "fmul a b = fmul b a"
proof -
  have "(s \<noteq> s') = (s' \<noteq> s)" for s s' :: bool
    by auto
  then show ?thesis
    by (cases a; cases b) (simp_all add: mult.commute)
qed

lemma assign_ration_rows:
  "assign_ration ip df =
     map (\<lambda>r. ration_row.extend r
            (costed_row.fields
               (price_or_nan ip (Ingredient r))
               (row_price_DM (price_or_nan ip (Ingredient r)) (DM_perc r))
               (fdiv (row_price_DM (price_or_nan ip (Ingredient r)) (DM_perc r)) (lit 1000))
               (row_daily_cost (price_or_nan ip (Ingredient r)) (kg_inclusion r) (DM_perc r))))
       df"
  by (induction df)
     (simp_all add: assign_ration_def series_map_def Let_def price_or_nan_def row_price_DM_def
        row_daily_cost_def)

lemma daily_cost_rows:
  "map daily_cost (assign_ration ip df) =
     map (\<lambda>r. row_daily_cost (price_or_nan ip (Ingredient r)) (kg_inclusion r) (DM_perc r)) df"
  by (simp add: assign_ration_rows ration_row.defs costed_row.defs comp_def)

lemma price_asfed_rows:
  "map price_asfed_t (assign_ration ip df) = map (\<lambda>r. price_or_nan ip (Ingredient r)) df"
  by (simp add: assign_ration_rows ration_row.defs costed_row.defs comp_def)

lemma price_DM_rows:
  "map price_DM_t (assign_ration ip df) =
     map (\<lambda>r. row_price_DM (price_or_nan ip (Ingredient r)) (DM_perc r)) df"
  by (simp add: assign_ration_rows ration_row.defs costed_row.defs comp_def)

lemma dollar_fed_rows:
  "map dollar_fed_p_d (assign_diet ip df) =
     map (\<lambda>r. row_daily_cost (price_or_nan ip (Feedstuff r)) (Fd_DMIn r) (Fd_DM r)) df"
  by (induction df)
     (simp_all add: assign_diet_def series_map_def Let_def price_or_nan_def row_price_DM_def
        row_daily_cost_def diet_row.defs diet_sub_row.defs fmul_commute)

lemma validation_iff:
  "list_all (\<lambda>b. b) (ingredient_validation df) \<longleftrightarrow>
     (\<forall>r \<in> set df. ingredient_prices_asfed_tonne (Ingredient r) \<noteq> None)"
  by (simp add: ingredient_validation_def list_all_iff)

lemmas row_eval = row_daily_cost_def row_price_DM_def price_or_nan_def

section \<open>The example run, step by step\<close>

lemma example_validation:
  "list_all (\<lambda>b. b) (ingredient_validation ration_list)"
  by (simp add: ingredient_validation_def price_table_values ration_list_values)

lemma example_components:
  "component_production milk_prices milk_components =
     Inr (Finite False 31, Finite False (2513008592072737 / 2251799813685248), Finite False (2303591209400009 / 2251799813685248), Finite False (7957860541563667 / 4503599627370496))"
  by (simp add: component_production_def bind_err_def getitem_def milk_prices_values
        milk_components_values lit_100 float_eval)

lemma example_revenue:
  "revenue_manual milk_prices (Finite False (2513008592072737 / 2251799813685248)) (Finite False (2303591209400009 / 2251799813685248)) (Finite False (7957860541563667 / 4503599627370496)) =
     Inr (Finite False (8355753568641851 / 562949953421312), Finite False (6311839913756025 / 562949953421312), Finite False (1790518621851825 / 1125899906842624))"
  by (simp add: revenue_manual_def bind_err_def getitem_def milk_prices_values float_eval)

lemma example_revenue_total:
  "fadd (fadd (Finite False (8355753568641851 / 562949953421312)) (Finite False (6311839913756025 / 562949953421312))) (Finite False (1790518621851825 / 1125899906842624)) = Finite False (3890713198330947 / 140737488355328)"
  by (simp add: float_eval)

lemma example_daily_cost:
  "map daily_cost (assign_ration ingredient_prices_asfed_tonne ration_list) =
     [Finite False (8006399337547549 / 72057594037927936),
      Finite False (1516748017360849 / 281474976710656),
      Finite False (5035843219696099 / 1125899906842624),
      Finite False (4788309948641045 / 4503599627370496),
      Finite False (3070636109570793 / 2251799813685248),
      Finite False (1484703173858405 / 2251799813685248),
      Finite False (3602879701896397 / 9007199254740992)]"
  by (simp add: assign_ration_def series_map_def Let_def ration_row.defs costed_row.defs
        price_table_values ration_list_values lit_100 lit_1000 float_eval)

lemma example_diet_cost:
  "nansum
     [Finite False (8006399337547549 / 72057594037927936),
      Finite False (1516748017360849 / 281474976710656),
      Finite False (5035843219696099 / 1125899906842624),
      Finite False (4788309948641045 / 4503599627370496),
      Finite False (3070636109570793 / 2251799813685248),
      Finite False (1484703173858405 / 2251799813685248),
      Finite False (3602879701896397 / 9007199254740992)] = Finite False (7576521185200293 / 562949953421312)"
  by (simp add: nansum_def pairwise_sum.simps float_eval)

lemma example_difference:
  "fsub (Finite False (3890713198330947 / 140737488355328)) (Finite False (7576521185200293 / 562949953421312)) = Finite False (7986331608123495 / 562949953421312)"
  by (simp add: fsub_def float_eval)

lemmas example_steps =
  example_validation example_components example_revenue example_revenue_total
  example_daily_cost example_diet_cost example_difference

lemma example_return:
  "snd (calc_IOFC_manual milk_prices milk_components ingredient_prices_asfed_tonne
          ration_list verbose) = Inr (lit 14.186574773808571)"
  by (simp add: calc_IOFC_manual_def Let_def example_steps lit_def float_eval)

lemma example_printed:
  "fst (calc_IOFC_manual milk_prices milk_components ingredient_prices_asfed_tonne
          ration_list True) =
     [Print_kg_d (lit 1.116) (lit 1.0230000000000001) (lit 1.7670000000000001),
      Print_dollar_d (lit 14.842800000000002) (lit 11.212080000000002) (lit 1.5903),
      Print_revenue (lit 27.645180000000003),
      Print_ration (assign_ration ingredient_prices_asfed_tonne ration_list),
      Print_diet_cost (lit 13.458605226191432),
      Print_IOFC (lit 14.186574773808571)]"
  by (simp add: calc_IOFC_manual_def Let_def example_steps lit_def float_eval)

lemma example_lines:
  "map daily_cost (assign_ration ingredient_prices_asfed_tonne ration_list) =
     [lit 0.11111111111111112, lit 5.388571428571428, lit 4.472727272727272,
      lit 1.0632183908045978, lit 1.3636363636363638, lit 0.6593406593406592, lit 0.4]"
  by (simp add: example_daily_cost lit_def float_eval)

lemma example_lines_sum:
  "add_seq (Finite False 0)
     [lit 0.11111111111111112, lit 5.388571428571428, lit 4.472727272727272,
      lit 1.0632183908045978, lit 1.3636363636363638, lit 0.6593406593406592, lit 0.4] =
   lit 13.458605226191432"
  by (simp add: lit_def float_eval)

lemma example_lines_rounded:
  "map (\<lambda>c. rne (val c * 10000))
     [lit 0.11111111111111112, lit 5.388571428571428, lit 4.472727272727272,
      lit 1.0632183908045978, lit 1.3636363636363638, lit 0.6593406593406592, lit 0.4] =
   [1111, 53886, 44727, 10632, 13636, 6593, 4000]"
  by (simp add: lit_def float_eval)

lemma example_revenue_rounded: "rne (val (lit 27.645180000000003) * 100) = 2765"
  by (simp add: lit_def float_eval)

lemma example_diet_cost_rounded: "rne (val (lit 13.458605226191432) * 100) = 1346"
  by (simp add: lit_def float_eval)

section \<open>The rounding factor\<close>

lemma rf_gt1: "1 < round_factor"
  by (simp add: round_factor_def)

lemma rf_pos: "0 < round_factor"
  by (simp add: round_factor_def)

lemma rf_pow_ge1: "1 \<le> round_factor ^ e"
  using rf_gt1 by (simp add: one_le_power)

lemma rf_pow_pos: "0 < round_factor ^ e"
  using rf_pos by simp

lemma rf_pow_mono: "e \<le> e' \<Longrightarrow> round_factor ^ e \<le> round_factor ^ e'"
  using rf_gt1 by (simp add: power_increasing)

lemma rf_pow_bound:
  assumes "e \<le> 2 ^ 51"
  shows "round_factor ^ e \<le> 1 + of_nat e / 2 ^ 51"
proof -
  define w :: rat where "w = 1 / (2 ^ 53 - 1)"
  have rf: "round_factor = 1 + w" by (simp add: round_factor_def w_def)
  have w0: "0 < w" by (simp add: w_def)
  have ind: "n \<le> 2 ^ 51 \<Longrightarrow> (1 + w) ^ n \<le> 1 + 2 * of_nat n * w" for n :: nat
  proof (induction n)
    case 0
    show ?case by simp
  next
    case (Suc n)
    have "(of_nat (Suc n) :: rat) \<le> of_nat (2 ^ 51)"
      using Suc.prems by (simp only: of_nat_le_iff)
    then have n: "(of_nat n :: rat) + 1 \<le> 2 ^ 51" by simp
    have small: "2 * of_nat n * w \<le> 1"
      using n by (simp add: w_def)
    have ih: "(1 + w) ^ n \<le> 1 + 2 * of_nat n * w"
      using Suc.IH Suc.prems by simp
    have "(1 + w) ^ Suc n = (1 + w) ^ n * (1 + w)" by simp
    also have "\<dots> \<le> (1 + 2 * of_nat n * w) * (1 + w)"
      using ih w0 by (intro mult_right_mono) simp_all
    also have "\<dots> = 1 + 2 * of_nat n * w + w + (2 * of_nat n * w) * w"
      by (simp add: algebra_simps)
    also have "\<dots> \<le> 1 + 2 * of_nat n * w + w + 1 * w"
      using small w0 by (intro add_left_mono mult_right_mono) simp_all
    also have "\<dots> = 1 + 2 * of_nat (Suc n) * w" by (simp add: algebra_simps)
    finally show ?case .
  qed
  have "round_factor ^ e \<le> 1 + 2 * of_nat e * w" using ind [OF assms] by (simp add: rf)
  also have "\<dots> = 1 + of_nat e * (2 * w)" by simp
  also have "\<dots> \<le> 1 + of_nat e * (1 / 2 ^ 51)"
    by (intro add_left_mono mult_left_mono) (simp_all add: w_def)
  finally show ?thesis by simp
qed

lemma rf_pow_le2: "e \<le> 2 ^ 51 \<Longrightarrow> round_factor ^ e \<le> 2"
proof -
  assume a: "e \<le> 2 ^ 51"
  have "(of_nat e :: rat) \<le> of_nat (2 ^ 51)" using a by (simp only: of_nat_le_iff)
  then have "(of_nat e :: rat) / 2 ^ 51 \<le> 1" by simp
  then show ?thesis using rf_pow_bound [OF a] by linarith
qed

section \<open>Closeness\<close>

lemma near_refl: "0 \<le> x \<Longrightarrow> near 0 x x"
  by (simp add: near_def)

lemma near_mono: "near e s X \<Longrightarrow> e \<le> e' \<Longrightarrow> near e' s X"
proof -
  assume n: "near e s X" and le: "e \<le> e'"
  have p: "round_factor ^ e \<le> round_factor ^ e'" using le by (rule rf_pow_mono)
  have "s * round_factor ^ e \<le> s * round_factor ^ e'"
    using n p by (intro mult_left_mono) (simp_all add: near_def)
  moreover have "X * round_factor ^ e \<le> X * round_factor ^ e'"
    using n p by (intro mult_left_mono) (simp_all add: near_def)
  ultimately show ?thesis using n unfolding near_def by linarith
qed

lemma near_trans: "near e q X \<Longrightarrow> near e' r q \<Longrightarrow> near (e + e') r X"
proof -
  assume a: "near e q X" and b: "near e' r q"
  have "X \<le> q * round_factor ^ e" using a by (simp add: near_def)
  also have "\<dots> \<le> (r * round_factor ^ e') * round_factor ^ e"
    using b rf_pow_pos [of e] by (intro mult_right_mono) (simp_all add: near_def)
  finally have 1: "X \<le> r * round_factor ^ (e + e')" by (simp add: power_add mult_ac)
  have "r \<le> q * round_factor ^ e'" using b by (simp add: near_def)
  also have "\<dots> \<le> (X * round_factor ^ e) * round_factor ^ e'"
    using a rf_pow_pos [of e'] by (intro mult_right_mono) (simp_all add: near_def)
  finally have 2: "r \<le> X * round_factor ^ (e + e')" by (simp add: power_add mult_ac)
  show ?thesis using a b 1 2 by (simp add: near_def)
qed

lemma near_mult: "near e a A \<Longrightarrow> near e' b B \<Longrightarrow> near (e + e') (a * b) (A * B)"
proof -
  assume a: "near e a A" and b: "near e' b B"
  have "A * B \<le> (a * round_factor ^ e) * (b * round_factor ^ e')"
    using a b rf_pow_pos [of e'] by (intro mult_mono) (simp_all add: near_def)
  then have 1: "A * B \<le> a * b * round_factor ^ (e + e')" by (simp add: power_add mult_ac)
  have "a * b \<le> (A * round_factor ^ e) * (B * round_factor ^ e')"
    using a b rf_pow_pos [of e'] by (intro mult_mono) (simp_all add: near_def)
  then have 2: "a * b \<le> A * B * round_factor ^ (e + e')" by (simp add: power_add mult_ac)
  show ?thesis using a b 1 2 by (simp add: near_def)
qed

lemma near_pos: "near e b B \<Longrightarrow> 0 < B \<Longrightarrow> 0 < b"
proof -
  assume b: "near e b B" and p: "0 < B"
  then show "0 < b" by (cases "b = 0") (auto simp: near_def)
qed

lemma near_inverse: "near e b B \<Longrightarrow> 0 < B \<Longrightarrow> near e (1 / b) (1 / B)"
proof -
  assume b: "near e b B" and p: "0 < B"
  have bp: "0 < b" using b p by (rule near_pos)
  have 1: "1 / B \<le> 1 / b * round_factor ^ e"
    using b bp p by (simp add: near_def field_simps)
  have 2: "1 / b \<le> 1 / B * round_factor ^ e"
    using b bp p by (simp add: near_def field_simps)
  show ?thesis using bp p 1 2 by (simp add: near_def)
qed

lemma near_divide: "near e a A \<Longrightarrow> near e' b B \<Longrightarrow> 0 < B \<Longrightarrow> near (e + e') (a / b) (A / B)"
  using near_mult [of e a A e' "1 / b" "1 / B"] near_inverse [of e' b B] by simp

lemma near_add: "near e a A \<Longrightarrow> near e b B \<Longrightarrow> near e (a + b) (A + B)"
  by (auto simp: near_def distrib_right)

lemma near_zero_left: "near e 0 X \<Longrightarrow> X = 0"
  by (simp add: near_def)

lemma near_zero_right: "near e s 0 \<Longrightarrow> s = 0"
  by (simp add: near_def)

lemma near_error:
  assumes "near e s X" and "e \<le> 2 ^ 51"
  shows "\<bar>s - X\<bar> \<le> X * of_nat e / 2 ^ 51"
proof -
  have b: "round_factor ^ e - 1 \<le> of_nat e / 2 ^ 51"
    using rf_pow_bound [OF assms(2)] by simp
  have g: "0 \<le> round_factor ^ e - 1" using rf_pow_ge1 [of e] by simp
  have X: "0 \<le> X" and s: "0 \<le> s" using assms(1) by (simp_all add: near_def)
  show ?thesis
  proof (cases "s \<le> X")
    case True
    have "X - s \<le> s * (round_factor ^ e - 1)"
      using assms(1) by (simp add: near_def algebra_simps)
    also have "\<dots> \<le> X * (round_factor ^ e - 1)" using True g by (rule mult_right_mono)
    also have "\<dots> \<le> X * (of_nat e / 2 ^ 51)" using b X by (rule mult_left_mono)
    finally show ?thesis using True by simp
  next
    case False
    have "s - X \<le> X * (round_factor ^ e - 1)"
      using assms(1) by (simp add: near_def algebra_simps)
    also have "\<dots> \<le> X * (of_nat e / 2 ^ 51)" using b X by (rule mult_left_mono)
    finally show ?thesis using False by simp
  qed
qed

section \<open>One rounding\<close>

lemma round_near:
  assumes "pow2 (- 1022) \<le> q" and "q \<le> 2 ^ 1023"
  shows "\<exists>r. round_mag q = Some r \<and> near 1 r q"
proof -
  have q: "0 < q" using assms(1) pow2_pos [of "- 1022"] by linarith
  from round_mag_error [OF assms] obtain r where
    r: "round_mag q = Some r" and e: "\<bar>r - q\<bar> \<le> q / 2 ^ 53" by blast
  have lo: "q - q / 2 ^ 53 \<le> r" and hi: "r \<le> q + q / 2 ^ 53"
    using e by (simp_all only: abs_le_iff) linarith+
  have "0 \<le> q - q / 2 ^ 53" using q by simp
  then have r0: "0 \<le> r" using lo by linarith
  have "q = (q - q / 2 ^ 53) * round_factor" by (simp add: round_factor_def)
  also have "\<dots> \<le> r * round_factor" using lo rf_pos by (intro mult_right_mono) simp_all
  finally have 1: "q \<le> r * round_factor" .
  have "q + q / 2 ^ 53 = q * (1 + 1 / 2 ^ 53)" by (simp add: algebra_simps)
  also have "\<dots> \<le> q * round_factor"
    using q by (intro mult_left_mono) (simp_all add: round_factor_def)
  finally have 2: "r \<le> q * round_factor" using hi by linarith
  show ?thesis using r r0 q 1 2 by (simp add: near_def)
qed

lemma approx_round:
  assumes "near e q X" and "in_range X" and "e \<le> 2 ^ 51"
  shows "\<exists>r. round_dbl False q = Finite False r \<and> near (Suc e) r X"
proof (cases "X = 0")
  case True
  then have "q = 0" using assms(1) by (simp add: near_zero_right)
  then show ?thesis using True by (simp add: round_dbl_def near_def)
next
  case False
  then have lo: "1 / 2 ^ 1000 \<le> X" and hi: "X \<le> 2 ^ 1000"
    using assms(2) by (simp_all add: in_range_def no_underflow_def)
  have g: "round_factor ^ e \<le> 2" using assms(3) by (rule rf_pow_le2)
  have q0: "0 \<le> q" using assms(1) by (simp add: near_def)
  have "X \<le> q * round_factor ^ e" using assms(1) by (simp add: near_def)
  also have "\<dots> \<le> q * 2" using g q0 by (rule mult_left_mono)
  finally have "1 / 2 ^ 1000 \<le> q * 2" using lo by linarith
  then have "1 / 2 ^ 1001 \<le> q" by simp
  moreover have "pow2 (- 1022) \<le> 1 / 2 ^ 1001" by (simp add: pow2_def)
  ultimately have l: "pow2 (- 1022) \<le> q" by linarith
  have X0: "0 \<le> X" using assms(1) by (simp add: near_def)
  have "q \<le> X * round_factor ^ e" using assms(1) by (simp add: near_def)
  also have "\<dots> \<le> X * 2" using g X0 by (rule mult_left_mono)
  also have "\<dots> \<le> 2 ^ 1000 * 2" using hi by simp
  also have "\<dots> \<le> (2::rat) ^ 1023" by simp
  finally have h: "q \<le> 2 ^ 1023" .
  from round_near [OF l h] obtain r where
    r: "round_mag q = Some r" and n: "near 1 r q" by blast
  have "near (e + 1) r X" using assms(1) n by (rule near_trans)
  then show ?thesis using r by (simp add: round_dbl_def)
qed

section \<open>The operations on close values\<close>

lemma approx_Finite: "approx e x X \<Longrightarrow> \<exists>m. x = Finite False m \<and> near e m X"
  by (cases x) auto

lemma approx_mono: "approx e x X \<Longrightarrow> e \<le> e' \<Longrightarrow> approx e' x X"
  by (cases x) (auto intro: near_mono)

lemma approx_fmul:
  assumes "approx e x X" and "approx e' y Y" and "in_range (X * Y)" and "e + e' \<le> 2 ^ 51"
  shows "approx (Suc (e + e')) (fmul x y) (X * Y)"
proof -
  from approx_Finite [OF assms(1)] obtain m where x: "x = Finite False m" and m: "near e m X"
    by blast
  from approx_Finite [OF assms(2)] obtain m' where y: "y = Finite False m'" and m': "near e' m' Y"
    by blast
  have "near (e + e') (m * m') (X * Y)" using m m' by (rule near_mult)
  from approx_round [OF this assms(3,4)] show ?thesis by (auto simp: x y)
qed

lemma approx_fdiv:
  assumes "approx e x X" and "approx e' y Y" and "0 < Y" and "in_range (X / Y)"
    and "e + e' \<le> 2 ^ 51"
  shows "approx (Suc (e + e')) (fdiv x y) (X / Y)"
proof -
  from approx_Finite [OF assms(1)] obtain m where x: "x = Finite False m" and m: "near e m X"
    by blast
  from approx_Finite [OF assms(2)] obtain m' where y: "y = Finite False m'" and m': "near e' m' Y"
    by blast
  have p: "0 < m'" using m' assms(3) by (rule near_pos)
  have "near (e + e') (m / m') (X / Y)" using m m' assms(3) by (rule near_divide)
  from approx_round [OF this assms(4,5)] show ?thesis using p by (auto simp: x y)
qed

lemma approx_fadd:
  assumes "approx e x X" and "approx e y Y" and "in_range (X + Y)" and "e \<le> 2 ^ 51"
  shows "approx (Suc e) (fadd x y) (X + Y)"
proof -
  from approx_Finite [OF assms(1)] obtain m where x: "x = Finite False m" and m: "near e m X"
    by blast
  from approx_Finite [OF assms(2)] obtain m' where y: "y = Finite False m'" and m': "near e m' Y"
    by blast
  have n: "near e (m + m') (X + Y)" using m m' by (rule near_add)
  have nn: "0 \<le> m + m'" using n by (simp add: near_def)
  show ?thesis
  proof (cases "m + m' = 0")
    case True
    then have "X + Y = 0" using n by (simp add: near_zero_left)
    then show ?thesis using True by (simp add: x y near_def)
  next
    case False
    then have "fadd x y = round_dbl False (m + m')"
      using nn by (simp add: x y round_val_def)
    then show ?thesis using approx_round [OF n assms(3,4)] by auto
  qed
qed


section \<open>Sums of close values\<close>

lemma no_underflow_nonneg: "no_underflow X \<Longrightarrow> 0 \<le> X"
proof -
  assume "no_underflow X"
  moreover have "(0::rat) \<le> 1 / 2 ^ 1000" by simp
  ultimately show ?thesis unfolding no_underflow_def by linarith
qed

lemma no_underflow_add: "no_underflow X \<Longrightarrow> no_underflow Y \<Longrightarrow> no_underflow (X + Y)"
proof -
  assume x: "no_underflow X" and y: "no_underflow Y"
  have x0: "0 \<le> X" and y0: "0 \<le> Y" using x y by (simp_all add: no_underflow_nonneg)
  show ?thesis
  proof (cases "X = 0 \<and> Y = 0")
    case True
    then show ?thesis by (simp add: no_underflow_def)
  next
    case False
    then have "1 / 2 ^ 1000 \<le> X \<or> 1 / 2 ^ 1000 \<le> Y" using x y unfolding no_underflow_def by blast
    then have "1 / 2 ^ 1000 \<le> X + Y" using x0 y0 by linarith
    then show ?thesis unfolding no_underflow_def by (rule disjI2)
  qed
qed

lemma no_underflow_sum_list: "\<forall>X \<in> set Xs. no_underflow X \<Longrightarrow> no_underflow (sum_list Xs)"
  by (induction Xs) (simp_all add: no_underflow_def [of 0] no_underflow_add)

lemma no_underflow_sum_nonneg: "\<forall>X \<in> set Xs. no_underflow X \<Longrightarrow> 0 \<le> sum_list Xs"
  by (rule no_underflow_nonneg) (rule no_underflow_sum_list)

lemma no_underflow_elem_le_sum: "\<forall>X \<in> set Xs. no_underflow X \<Longrightarrow> X \<in> set Xs \<Longrightarrow> X \<le> sum_list Xs"
proof (induction Xs)
  case Nil
  then show ?case by simp
next
  case (Cons Y Ys)
  have y: "0 \<le> Y" using Cons.prems(1) by (simp add: no_underflow_nonneg)
  have s: "0 \<le> sum_list Ys" using Cons.prems(1) by (simp add: no_underflow_sum_nonneg)
  show ?case
  proof (cases "X = Y")
    case True
    then show ?thesis using s by simp
  next
    case False
    then have "X \<in> set Ys" using Cons.prems(2) by simp
    then have "X \<le> sum_list Ys" using Cons.IH Cons.prems(1) by simp
    then show ?thesis using y by simp
  qed
qed

lemma in_rangeI: "no_underflow X \<Longrightarrow> X \<le> 2 ^ 1000 \<Longrightarrow> in_range X"
  by (simp add: in_range_def)

lemma approx_add_seq:
  assumes "approx e res R" and "list_all2 (approx c) xs Xs" and "no_underflow R"
    and "\<forall>X \<in> set Xs. no_underflow X" and "R + sum_list Xs \<le> 2 ^ 1000" and "c \<le> e"
    and "e + length xs \<le> 2 ^ 51"
  shows "approx (e + length xs) (add_seq res xs) (R + sum_list Xs)"
  using assms
proof (induction xs arbitrary: res R e Xs)
  case Nil
  then show ?case by simp
next
  case (Cons x xs)
  from Cons.prems(2) obtain X Xs' where Xs: "Xs = X # Xs'" and x: "approx c x X"
    and rest: "list_all2 (approx c) xs Xs'"
    by (auto simp: list_all2_Cons1)
  have aX: "no_underflow X" and aXs: "\<forall>X \<in> set Xs'. no_underflow X" using Cons.prems(4) by (simp_all add: Xs)
  have s0: "0 \<le> sum_list Xs'" using aXs by (rule no_underflow_sum_nonneg)
  have x': "approx e x X" using x Cons.prems(6) by (rule approx_mono)
  have e: "e \<le> 2 ^ 51" using Cons.prems(7) by simp
  have ab: "no_underflow (R + X)" using Cons.prems(3) aX by (rule no_underflow_add)
  have "R + X \<le> 2 ^ 1000" using Cons.prems(5) s0 by (simp add: Xs)
  then have ir: "in_range (R + X)" using ab by (simp add: in_rangeI)
  have st: "approx (Suc e) (fadd res x) (R + X)"
    using Cons.prems(1) x' ir e by (rule approx_fadd)
  have le: "R + X + sum_list Xs' \<le> 2 ^ 1000" using Cons.prems(5) by (simp add: Xs add.assoc)
  have ce: "c \<le> Suc e" using Cons.prems(6) by simp
  have ee: "Suc e + length xs \<le> 2 ^ 51" using Cons.prems(7) by simp
  from Cons.IH [OF st rest ab aXs le ce ee]
  show ?case by (simp add: Xs add.assoc)
qed

lemma sum_list_map2_add:
  "length (Rs :: rat list) = length Ys \<Longrightarrow> sum_list (map2 (+) Rs Ys) = sum_list Rs + sum_list Ys"
  by (induction Rs Ys rule: list_induct2) simp_all

lemma approx_map2_fadd:
  assumes "list_all2 (approx e) r Rs" and "list_all2 (approx e) ys Ys"
    and "\<forall>R \<in> set Rs. no_underflow R" and "\<forall>Y \<in> set Ys. no_underflow Y"
    and "sum_list Rs + sum_list Ys \<le> 2 ^ 1000" and "e \<le> 2 ^ 51"
  shows "list_all2 (approx (Suc e)) (map2 fadd r ys) (map2 (+) Rs Ys)
       \<and> (\<forall>X \<in> set (map2 (+) Rs Ys). no_underflow X)"
proof -
  have lr: "length r = length Rs" and ly: "length ys = length Ys"
    using assms(1,2) by (simp_all add: list_all2_lengthD)
  have sR: "0 \<le> sum_list Rs" using assms(3) by (rule no_underflow_sum_nonneg)
  have sY: "0 \<le> sum_list Ys" using assms(4) by (rule no_underflow_sum_nonneg)
  have pt: "approx (Suc e) (fadd (r ! i) (ys ! i)) (Rs ! i + Ys ! i) \<and> no_underflow (Rs ! i + Ys ! i)"
    if i: "i < length Rs" "i < length Ys" for i
  proof -
    have a: "approx e (r ! i) (Rs ! i)" using assms(1) i lr by (simp add: list_all2_nthD)
    have b: "approx e (ys ! i) (Ys ! i)" using assms(2) i ly by (simp add: list_all2_nthD)
    have mR: "Rs ! i \<in> set Rs" and mY: "Ys ! i \<in> set Ys" using i by simp_all
    have ab: "no_underflow (Rs ! i + Ys ! i)" using assms(3,4) mR mY by (simp add: no_underflow_add)
    have "Rs ! i \<le> sum_list Rs" using assms(3) mR by (rule no_underflow_elem_le_sum)
    moreover have "Ys ! i \<le> sum_list Ys" using assms(4) mY by (rule no_underflow_elem_le_sum)
    ultimately have "Rs ! i + Ys ! i \<le> 2 ^ 1000" using assms(5) by linarith
    then have "in_range (Rs ! i + Ys ! i)" using ab by (simp add: in_rangeI)
    then show ?thesis using a b assms(6) ab by (simp add: approx_fadd)
  qed
  have 1: "list_all2 (approx (Suc e)) (map2 fadd r ys) (map2 (+) Rs Ys)"
    using pt lr ly by (simp add: list_all2_conv_all_nth)
  have 2: "\<forall>X \<in> set (map2 (+) Rs Ys). no_underflow X"
  proof
    fix X
    assume "X \<in> set (map2 (+) Rs Ys)"
    then obtain i where "i < length (map2 (+) Rs Ys)" and "X = map2 (+) Rs Ys ! i"
      by (auto simp: in_set_conv_nth)
    then show "no_underflow X" using pt [of i] by simp
  qed
  show ?thesis using 1 2 by simp
qed

lemma approx_acc8:
  assumes "list_all2 (approx e) r Rs" and "list_all2 (approx c) xs Xs" and "length r = 8"
    and "c \<le> e" and "\<forall>X \<in> set Rs. no_underflow X" and "\<forall>X \<in> set Xs. no_underflow X"
    and "sum_list Rs + sum_list Xs \<le> 2 ^ 1000" and "e + length xs \<le> 2 ^ 51"
    and "acc8 r xs = (r', rest)"
  shows "\<exists>Rs' Xr. list_all2 (approx (e + length xs)) r' Rs' \<and> list_all2 (approx c) rest Xr
      \<and> length r' = 8 \<and> length rest < 8
      \<and> (\<forall>X \<in> set Rs'. no_underflow X) \<and> (\<forall>X \<in> set Xr. no_underflow X)
      \<and> sum_list Rs' + sum_list Xr = sum_list Rs + sum_list Xs"
  using assms
proof (induction r xs arbitrary: e Rs Xs rule: acc8.induct)
  case (1 r xs)
  show ?case
  proof (cases "8 \<le> length xs")
    case True
    have lx: "length Xs = length xs" using "1.prems"(2) by (simp add: list_all2_lengthD)
    have lR: "length Rs = 8" using "1.prems"(1,3) by (simp add: list_all2_lengthD)
    have split: "sum_list Xs = sum_list (take 8 Xs) + sum_list (drop 8 Xs)"
      using sum_list_append [of "take 8 Xs" "drop 8 Xs"] by simp
    have aT: "\<forall>X \<in> set (take 8 Xs). no_underflow X" using "1.prems"(6) by (auto dest: in_set_takeD)
    have aD: "\<forall>X \<in> set (drop 8 Xs). no_underflow X" using "1.prems"(6) by (auto dest: in_set_dropD)
    have d0: "0 \<le> sum_list (drop 8 Xs)" using aD by (rule no_underflow_sum_nonneg)
    have t: "list_all2 (approx e) (take 8 xs) (take 8 Xs)"
      using "1.prems"(2,4) by (intro list_all2_takeI) (auto elim!: list_all2_mono intro: approx_mono)
    have le: "sum_list Rs + sum_list (take 8 Xs) \<le> 2 ^ 1000"
      using "1.prems"(7) split d0 by linarith
    have e: "e \<le> 2 ^ 51" using "1.prems"(8) by simp
    from approx_map2_fadd [OF "1.prems"(1) t "1.prems"(5) aT le e]
    have st: "list_all2 (approx (Suc e)) (map2 fadd r (take 8 xs)) (map2 (+) Rs (take 8 Xs))"
      and ab: "\<forall>X \<in> set (map2 (+) Rs (take 8 Xs)). no_underflow X"
      by simp_all
    have d: "list_all2 (approx c) (drop 8 xs) (drop 8 Xs)"
      using "1.prems"(2) by (rule list_all2_dropI)
    have l8: "length (map2 fadd r (take 8 xs)) = 8" using True "1.prems"(3) by simp
    have ce: "c \<le> Suc e" using "1.prems"(4) by simp
    have sm: "sum_list (map2 (+) Rs (take 8 Xs)) = sum_list Rs + sum_list (take 8 Xs)"
      using True lx lR by (intro sum_list_map2_add) simp
    have le2: "sum_list (map2 (+) Rs (take 8 Xs)) + sum_list (drop 8 Xs) \<le> 2 ^ 1000"
      using "1.prems"(7) split sm by linarith
    have ee: "Suc e + length (drop 8 xs) \<le> 2 ^ 51" using "1.prems"(8) True by simp
    have ac: "acc8 (map2 fadd r (take 8 xs)) (drop 8 xs) = (r', rest)"
      using "1.prems"(9) True by (simp add: acc8.simps [of r xs])
    from "1.IH" [OF True st d l8 ce ab aD le2 ee ac]
    obtain Rs' Xr where
      r: "list_all2 (approx (Suc e + length (drop 8 xs))) r' Rs'"
      and x: "list_all2 (approx c) rest Xr" and l: "length r' = 8" "length rest < 8"
      and a: "\<forall>X \<in> set Rs'. no_underflow X" "\<forall>X \<in> set Xr. no_underflow X"
      and s: "sum_list Rs' + sum_list Xr
          = sum_list (map2 (+) Rs (take 8 Xs)) + sum_list (drop 8 Xs)"
      by blast
    have "Suc e + length (drop 8 xs) \<le> e + length xs" using True by simp
    then have r2: "list_all2 (approx (e + length xs)) r' Rs'"
      using r by (auto elim!: list_all2_mono intro: approx_mono)
    have s2: "sum_list Rs' + sum_list Xr = sum_list Rs + sum_list Xs"
      using s sm split by linarith
    show ?thesis using r2 x l a s2 by blast
  next
    case False
    have r2: "list_all2 (approx (e + length xs)) r Rs"
      using "1.prems"(1) by (auto elim!: list_all2_mono intro: approx_mono)
    have "acc8 r xs = (r, xs)" using False by (simp add: acc8.simps [of r xs])
    then have "r' = r" "rest = xs" using "1.prems"(9) by simp_all
    then show ?thesis using r2 "1.prems"(2,3,5,6) False by auto
  qed
qed


lemma list_of_length_8:
  "length (Rs :: 'a list) = 8 \<Longrightarrow>
     Rs = [Rs ! 0, Rs ! 1, Rs ! 2, Rs ! 3, Rs ! 4, Rs ! 5, Rs ! 6, Rs ! 7]"
  by (auto simp: numeral_eq_Suc length_Suc_conv)

lemma approx_block_sum:
  assumes "list_all2 (approx c) a As" and "8 \<le> length a" and "\<forall>X \<in> set As. no_underflow X"
    and "sum_list As \<le> 2 ^ 1000" and "c + length a + 2 \<le> 2 ^ 51"
  shows "approx (c + length a + 2) (block_sum a) (sum_list As)"
proof -
  obtain r rest where ar: "acc8 (take 8 a) (drop 8 a) = (r, rest)"
    by (cases "acc8 (take 8 a) (drop 8 a)")
  define E where "E = c + length (drop 8 a)"
  have split: "sum_list As = sum_list (take 8 As) + sum_list (drop 8 As)"
    using sum_list_append [of "take 8 As" "drop 8 As"] by simp
  have t: "list_all2 (approx c) (take 8 a) (take 8 As)"
    using assms(1) by (rule list_all2_takeI)
  have d: "list_all2 (approx c) (drop 8 a) (drop 8 As)"
    using assms(1) by (rule list_all2_dropI)
  have l: "length (take 8 a) = 8" using assms(2) by simp
  have aT: "\<forall>X \<in> set (take 8 As). no_underflow X" using assms(3) by (auto dest: in_set_takeD)
  have aD: "\<forall>X \<in> set (drop 8 As). no_underflow X" using assms(3) by (auto dest: in_set_dropD)
  have le: "sum_list (take 8 As) + sum_list (drop 8 As) \<le> 2 ^ 1000"
    using assms(4) split by simp
  have ee: "c + length (drop 8 a) \<le> 2 ^ 51" using assms(5) by simp
  from approx_acc8 [OF t d l order_refl aT aD le ee ar]
  obtain Rs Xr where
    r: "list_all2 (approx E) r Rs" and x: "list_all2 (approx c) rest Xr"
    and lr: "length r = 8" and lrest: "length rest < 8"
    and aR: "\<forall>X \<in> set Rs. no_underflow X" and aX: "\<forall>X \<in> set Xr. no_underflow X"
    and s: "sum_list Rs + sum_list Xr = sum_list As"
    unfolding E_def using split by auto
  have lR: "length Rs = 8" using r lr by (simp add: list_all2_lengthD)
  have x0: "0 \<le> sum_list Xr" using aX by (rule no_underflow_sum_nonneg)
  have E: "E + 3 + length rest \<le> c + length a + 2"
    using lrest assms(2) by (simp add: E_def)
  have E51: "E + 3 \<le> 2 ^ 51" using E assms(5) by simp
  define a0 a1 a2 a3 a4 a5 a6 a7 where
    "a0 = Rs ! 0" and "a1 = Rs ! 1" and "a2 = Rs ! 2" and "a3 = Rs ! 3"
    and "a4 = Rs ! 4" and "a5 = Rs ! 5" and "a6 = Rs ! 6" and "a7 = Rs ! 7"
  note defs = a0_def a1_def a2_def a3_def a4_def a5_def a6_def a7_def
  have Rs: "Rs = [a0, a1, a2, a3, a4, a5, a6, a7]"
    unfolding defs using lR by (rule list_of_length_8)
  have ab: "no_underflow a0" "no_underflow a1" "no_underflow a2" "no_underflow a3" "no_underflow a4" "no_underflow a5" "no_underflow a6" "no_underflow a7"
    using aR lR by (simp_all add: defs)
  note nn = ab [THEN no_underflow_nonneg]
  have tot: "a0 + a1 + a2 + a3 + a4 + a5 + a6 + a7 + sum_list Xr \<le> 2 ^ 1000"
    using s assms(4) by (simp add: Rs add.assoc)
  have p: "approx E (r ! 0) a0" "approx E (r ! 1) a1" "approx E (r ! 2) a2" "approx E (r ! 3) a3"
    "approx E (r ! 4) a4" "approx E (r ! 5) a5" "approx E (r ! 6) a6" "approx E (r ! 7) a7"
    using r lr by (simp_all add: defs list_all2_nthD)
  have e1: "E \<le> 2 ^ 51" and e2: "Suc E \<le> 2 ^ 51" and e3: "Suc (Suc E) \<le> 2 ^ 51"
    using E51 by simp_all
  have r01: "in_range (a0 + a1)" and r23: "in_range (a2 + a3)"
    and r45: "in_range (a4 + a5)" and r67: "in_range (a6 + a7)"
    using nn tot x0 ab by (auto intro!: in_rangeI no_underflow_add)
  have r03: "in_range ((a0 + a1) + (a2 + a3))" and r47: "in_range ((a4 + a5) + (a6 + a7))"
    using nn tot x0 ab by (auto intro!: in_rangeI no_underflow_add)
  have ab07: "no_underflow (((a0 + a1) + (a2 + a3)) + ((a4 + a5) + (a6 + a7)))"
    using ab by (intro no_underflow_add)
  have r07: "in_range (((a0 + a1) + (a2 + a3)) + ((a4 + a5) + (a6 + a7)))"
    using nn tot x0 ab07 by (auto intro!: in_rangeI)
  have t01: "approx (Suc E) (fadd (r ! 0) (r ! 1)) (a0 + a1)"
    using p(1,2) r01 e1 by (rule approx_fadd)
  have t23: "approx (Suc E) (fadd (r ! 2) (r ! 3)) (a2 + a3)"
    using p(3,4) r23 e1 by (rule approx_fadd)
  have t45: "approx (Suc E) (fadd (r ! 4) (r ! 5)) (a4 + a5)"
    using p(5,6) r45 e1 by (rule approx_fadd)
  have t67: "approx (Suc E) (fadd (r ! 6) (r ! 7)) (a6 + a7)"
    using p(7,8) r67 e1 by (rule approx_fadd)
  have t03: "approx (Suc (Suc E)) (fadd (fadd (r ! 0) (r ! 1)) (fadd (r ! 2) (r ! 3)))
      ((a0 + a1) + (a2 + a3))"
    using t01 t23 r03 e2 by (rule approx_fadd)
  have t47: "approx (Suc (Suc E)) (fadd (fadd (r ! 4) (r ! 5)) (fadd (r ! 6) (r ! 7)))
      ((a4 + a5) + (a6 + a7))"
    using t45 t67 r47 e2 by (rule approx_fadd)
  have t07: "approx (Suc (Suc (Suc E)))
      (fadd (fadd (fadd (r ! 0) (r ! 1)) (fadd (r ! 2) (r ! 3)))
            (fadd (fadd (r ! 4) (r ! 5)) (fadd (r ! 6) (r ! 7))))
      (((a0 + a1) + (a2 + a3)) + ((a4 + a5) + (a6 + a7)))"
    using t03 t47 r07 e3 by (rule approx_fadd)
  have le2: "((a0 + a1) + (a2 + a3)) + ((a4 + a5) + (a6 + a7)) + sum_list Xr \<le> 2 ^ 1000"
    using tot by (simp add: add.assoc)
  have cE: "c \<le> Suc (Suc (Suc E))" by (simp add: E_def)
  have eE: "Suc (Suc (Suc E)) + length rest \<le> 2 ^ 51" using E assms(5) by simp
  from approx_add_seq [OF t07 x ab07 aX le2 cE eE]
  have "approx (Suc (Suc (Suc E)) + length rest) (block_sum a)
      (((a0 + a1) + (a2 + a3)) + ((a4 + a5) + (a6 + a7)) + sum_list Xr)"
    by (simp add: block_sum_def ar)
  moreover have "((a0 + a1) + (a2 + a3)) + ((a4 + a5) + (a6 + a7)) + sum_list Xr = sum_list As"
    using s by (simp add: Rs add.assoc)
  moreover have "Suc (Suc (Suc E)) + length rest \<le> c + length a + 2" using E by simp
  ultimately show ?thesis by (auto intro: approx_mono)
qed

lemma approx_pairwise_sum:
  assumes "list_all2 (approx c) a As" and "\<forall>X \<in> set As. no_underflow X"
    and "sum_list As \<le> 2 ^ 1000" and "c + length a + 2 \<le> 2 ^ 51"
  shows "approx (c + length a + 2) (pairwise_sum a) (sum_list As)"
  using assms
proof (induction a arbitrary: As rule: pairwise_sum.induct)
  case (1 a)
  show ?case
  proof (cases "length a < 8")
    case True
    have z: "approx c (Finite False 0) 0" by (simp add: near_def)
    have le: "0 + sum_list As \<le> 2 ^ 1000" using "1.prems"(3) by simp
    have ee: "c + length a \<le> 2 ^ 51" using "1.prems"(4) by simp
    have a0: "no_underflow 0" by (simp add: no_underflow_def)
    from approx_add_seq [OF z "1.prems"(1) a0 "1.prems"(2) le order_refl ee]
    have "approx (c + length a) (pairwise_sum a) (sum_list As)"
      using True by (simp add: pairwise_sum.simps [of a])
    then show ?thesis by (rule approx_mono) simp
  next
    case False
    show ?thesis
    proof (cases "length a \<le> 128")
      case True
      have "8 \<le> length a" using False by simp
      from approx_block_sum [OF "1.prems"(1) this "1.prems"(2,3,4)]
      show ?thesis using False True by (simp add: pairwise_sum.simps [of a])
    next
      case big: False
      define n2 where "n2 = length a div 2 - (length a div 2) mod 8"
      have n2: "1 \<le> n2" "n2 < length a" using big by (simp_all add: n2_def)
      have split: "sum_list As = sum_list (take n2 As) + sum_list (drop n2 As)"
        using sum_list_append [of "take n2 As" "drop n2 As"] by simp
      have t: "list_all2 (approx c) (take n2 a) (take n2 As)"
        using "1.prems"(1) by (rule list_all2_takeI)
      have d: "list_all2 (approx c) (drop n2 a) (drop n2 As)"
        using "1.prems"(1) by (rule list_all2_dropI)
      have aT: "\<forall>X \<in> set (take n2 As). no_underflow X" using "1.prems"(2) by (auto dest: in_set_takeD)
      have aD: "\<forall>X \<in> set (drop n2 As). no_underflow X" using "1.prems"(2) by (auto dest: in_set_dropD)
      have t0: "0 \<le> sum_list (take n2 As)" using aT by (rule no_underflow_sum_nonneg)
      have d0: "0 \<le> sum_list (drop n2 As)" using aD by (rule no_underflow_sum_nonneg)
      have leT: "sum_list (take n2 As) \<le> 2 ^ 1000" using "1.prems"(3) split d0 by linarith
      have leD: "sum_list (drop n2 As) \<le> 2 ^ 1000" using "1.prems"(3) split t0 by linarith
      have eT: "c + length (take n2 a) + 2 \<le> 2 ^ 51" using "1.prems"(4) by simp
      have eD: "c + length (drop n2 a) + 2 \<le> 2 ^ 51" using "1.prems"(4) by simp
      have p1: "approx (c + length (take n2 a) + 2) (pairwise_sum (take n2 a))
          (sum_list (take n2 As))"
        using "1.IH"(1) [OF False big n2_def t aT leT eT] .
      have p2: "approx (c + length (drop n2 a) + 2) (pairwise_sum (drop n2 a))
          (sum_list (drop n2 As))"
        using "1.IH"(2) [OF False big n2_def d aD leD eD] .
      have m1: "approx (c + length a + 1) (pairwise_sum (take n2 a)) (sum_list (take n2 As))"
        using p1 by (rule approx_mono) (use n2 in simp)
      have m2: "approx (c + length a + 1) (pairwise_sum (drop n2 a)) (sum_list (drop n2 As))"
        using p2 by (rule approx_mono) (use n2 in simp)
      have ab: "no_underflow (sum_list (take n2 As) + sum_list (drop n2 As))"
        using aT aD by (intro no_underflow_add no_underflow_sum_list)
      have ir: "in_range (sum_list (take n2 As) + sum_list (drop n2 As))"
        using ab "1.prems"(3) split by (simp add: in_rangeI)
      have e: "c + length a + 1 \<le> 2 ^ 51" using "1.prems"(4) by simp
      from approx_fadd [OF m1 m2 ir e]
      show ?thesis
        using False big split by (simp add: pairwise_sum.simps [of a] Let_def n2_def)
    qed
  qed
qed

lemma approx_not_nan: "approx e x X \<Longrightarrow> \<not> isnan x"
  by (cases x) simp_all

lemma approx_nansum:
  assumes "list_all2 (approx c) a As" and "\<forall>X \<in> set As. no_underflow X"
    and "sum_list As \<le> 2 ^ 1000" and "c + length a + 3 \<le> 2 ^ 51"
  shows "approx (c + length a + 3) (nansum a) (sum_list As)"
proof -
  have "\<forall>x \<in> set a. \<not> isnan x"
  proof
    fix x
    assume "x \<in> set a"
    then obtain i where i: "i < length a" and x: "x = a ! i" by (auto simp: in_set_conv_nth)
    have "approx c (a ! i) (As ! i)" using assms(1) i by (rule list_all2_nthD)
    then show "\<not> isnan x" unfolding x by (rule approx_not_nan)
  qed
  then have m: "map (\<lambda>x. if isnan x then Finite False 0 else x) a = a"
    by (induction a) simp_all
  have e: "c + length a + 2 \<le> 2 ^ 51" using assms(4) by simp
  have p: "approx (c + length a + 2) (pairwise_sum a) (sum_list As)"
    using assms(1,2,3) e by (rule approx_pairwise_sum)
  have z: "approx (c + length a + 2) (Finite False 0) 0" by (simp add: near_def)
  have ir: "in_range (0 + sum_list As)"
    using assms(2,3) by (simp add: in_rangeI no_underflow_sum_list)
  from approx_fadd [OF z p ir e]
  have "approx (Suc (c + length a + 2)) (nansum a) (sum_list As)" by (simp add: nansum_def m)
  then show ?thesis by (rule approx_mono) simp
qed


section \<open>Sizes\<close>

lemma in_band_nonneg: "in_band n X \<Longrightarrow> 0 \<le> X"
proof -
  assume "in_band n X"
  moreover have "(0::rat) \<le> 1 / 2 ^ n" by simp
  ultimately show ?thesis unfolding in_band_def by linarith
qed

lemma in_band_upper: "in_band n X \<Longrightarrow> X \<le> 2 ^ n"
  by (auto simp: in_band_def)

lemma in_band_mono: "in_band a X \<Longrightarrow> a \<le> b \<Longrightarrow> in_band b X"
proof -
  assume x: "in_band a X" and le: "a \<le> b"
  have 1: "(2::rat) ^ a \<le> 2 ^ b" using le by (simp add: power_increasing)
  then have 2: "(1::rat) / 2 ^ b \<le> 1 / 2 ^ a" by (simp add: frac_le)
  show ?thesis using x 1 2 unfolding in_band_def by linarith
qed

lemma in_band_mult: "in_band a X \<Longrightarrow> in_band b Y \<Longrightarrow> in_band (a + b) (X * Y)"
proof (cases "X = 0 \<or> Y = 0")
  case True
  then show ?thesis by (auto simp: in_band_def)
next
  case False
  assume "in_band a X" and "in_band b Y"
  with False have x: "1 / 2 ^ a \<le> X" "X \<le> 2 ^ a" and y: "1 / 2 ^ b \<le> Y" "Y \<le> 2 ^ b"
    by (auto simp: in_band_def)
  have "(0::rat) \<le> 1 / 2 ^ a" and "(0::rat) \<le> 1 / 2 ^ b" by simp_all
  then have x0: "0 \<le> X" and y0: "0 \<le> Y" using x(1) y(1) by linarith+
  have "(1 / 2 ^ a) * (1 / 2 ^ b) \<le> X * Y" using x(1) y(1) x0 y0 by (intro mult_mono) simp_all
  then have 1: "1 / 2 ^ (a + b) \<le> X * Y" by (simp add: power_add)
  have "X * Y \<le> 2 ^ a * 2 ^ b" using x(2) y(2) x0 y0 by (intro mult_mono) simp_all
  then have 2: "X * Y \<le> 2 ^ (a + b)" by (simp add: power_add)
  show ?thesis using 1 2 by (simp add: in_band_def)
qed

lemma in_band_inverse: "1 / 2 ^ b \<le> Y \<Longrightarrow> Y \<le> 2 ^ b \<Longrightarrow> in_band b (1 / Y)"
proof -
  assume y: "1 / 2 ^ b \<le> Y" "Y \<le> 2 ^ b"
  have "(0::rat) < 1 / 2 ^ b" by simp
  then have y0: "0 < Y" using y(1) by linarith
  have 1: "1 / 2 ^ b \<le> 1 / Y" using y(2) y0 by (simp add: frac_le)
  have "1 / Y \<le> 1 / (1 / 2 ^ b)" using y(1) by (intro frac_le) simp_all
  then have 2: "1 / Y \<le> 2 ^ b" by simp
  show ?thesis using 1 2 by (simp add: in_band_def)
qed

lemma in_band_divide:
  "in_band a X \<Longrightarrow> 1 / 2 ^ b \<le> Y \<Longrightarrow> Y \<le> 2 ^ b \<Longrightarrow> in_band (a + b) (X / Y)"
  using in_band_mult [of a X b "1 / Y"] in_band_inverse [of b Y] by simp

lemma in_band_add: "in_band a X \<Longrightarrow> in_band a Y \<Longrightarrow> in_band (Suc a) (X + Y)"
proof (cases "X = 0 \<and> Y = 0")
  case True
  then show ?thesis by (simp add: in_band_def)
next
  case False
  assume x: "in_band a X" and y: "in_band a Y"
  have x0: "0 \<le> X" and y0: "0 \<le> Y" using x y by (simp_all add: in_band_nonneg)
  have p: "(0::rat) < 2 ^ a" by simp
  have hi: "X \<le> 2 ^ a" "Y \<le> 2 ^ a" using x y p unfolding in_band_def by linarith+
  have "1 / 2 ^ a \<le> X \<or> 1 / 2 ^ a \<le> Y" using False x y unfolding in_band_def by blast
  then have "1 / 2 ^ a \<le> X + Y" using x0 y0 by linarith
  moreover have "(1::rat) / 2 ^ Suc a \<le> 1 / 2 ^ a" by (simp add: frac_le)
  ultimately have 1: "1 / 2 ^ Suc a \<le> X + Y" by linarith
  have 2: "X + Y \<le> 2 ^ Suc a" using hi by simp
  show ?thesis using 1 2 by (simp add: in_band_def)
qed

lemma in_band_range: "in_band a X \<Longrightarrow> a \<le> 1000 \<Longrightarrow> in_range X"
proof -
  assume "in_band a X" and "a \<le> 1000"
  then have "in_band 1000 X" by (rule in_band_mono)
  then show ?thesis by (simp add: in_band_def in_range_def no_underflow_def) linarith
qed

lemma in_band_no_underflow: "in_band a X \<Longrightarrow> a \<le> 1000 \<Longrightarrow> no_underflow X"
  using in_band_range [of a X] by (simp add: in_range_def)

lemma in_band_100: "in_band 7 100"
  by (simp add: in_band_def)

lemma in_band_1000: "in_band 10 1000"
  by (simp add: in_band_def)

lemma moderate_approx: "moderate x \<Longrightarrow> approx 0 x (val x) \<and> in_band 100 (val x)"
  by (cases x) (auto simp: near_refl in_band_nonneg)

section \<open>The cost of a line and the revenue\<close>

lemma approx_daily_cost:
  assumes "moderate p" and "moderate kg" and "moderate dm" and "0 < val dm"
  shows "approx 4 (row_daily_cost p kg dm) (exact_daily_cost (val p) (val kg) (val dm))
       \<and> in_band 317 (exact_daily_cost (val p) (val kg) (val dm))"
proof -
  define P K D where "P = val p" and "K = val kg" and "D = val dm"
  have p: "approx 0 p P" and bp: "in_band 100 P"
    using moderate_approx [OF assms(1)] by (simp_all add: P_def)
  have k: "approx 0 kg K" and bk: "in_band 100 K"
    using moderate_approx [OF assms(2)] by (simp_all add: K_def)
  have d: "approx 0 dm D" and bd: "in_band 100 D"
    using moderate_approx [OF assms(3)] by (simp_all add: D_def)
  have D0: "0 < D" using assms(4) by (simp add: D_def)
  have Dlo: "1 / 2 ^ 100 \<le> D" and Dhi: "D \<le> 2 ^ 100"
    using bd D0 by (simp_all add: in_band_def)
  have c100: "approx 0 (lit 100) 100" by (simp add: lit_100 near_def)
  have c1000: "approx 0 (lit 1000) 1000" by (simp add: lit_1000 near_def)
  have b1: "in_band 200 (P / D)" using in_band_divide [OF bp Dlo Dhi] by simp
  have b2: "in_band 207 (P / D * 100)" using in_band_mult [OF b1 in_band_100] by simp
  have b3': "in_band 217 (P / D * 100 * (1 / 1000))"
    using in_band_mult [OF b2 in_band_inverse [of 10 1000]] by simp
  then have b3: "in_band 217 (P / D * 100 / 1000)" by simp
  have b4: "in_band 317 (K * (P / D * 100 / 1000))" using in_band_mult [OF bk b3] by simp
  have q1: "approx (Suc (0 + 0)) (fdiv p dm) (P / D)"
    by (rule approx_fdiv [OF p d D0 in_band_range [OF b1]]) simp_all
  have q2: "approx (Suc (Suc (0 + 0) + 0)) (fmul (fdiv p dm) (lit 100)) (P / D * 100)"
    by (rule approx_fmul [OF q1 c100 in_band_range [OF b2]]) simp_all
  have q3: "approx (Suc (Suc (Suc (0 + 0) + 0) + 0))
      (fdiv (fmul (fdiv p dm) (lit 100)) (lit 1000)) (P / D * 100 / 1000)"
    by (rule approx_fdiv [OF q2 c1000 _ in_band_range [OF b3]]) simp_all
  have q4: "approx (Suc (0 + Suc (Suc (Suc (0 + 0) + 0) + 0)))
      (fmul kg (fdiv (fmul (fdiv p dm) (lit 100)) (lit 1000))) (K * (P / D * 100 / 1000))"
    by (rule approx_fmul [OF k q3 in_band_range [OF b4]]) simp_all
  have "approx 4 (fmul kg (fdiv (fmul (fdiv p dm) (lit 100)) (lit 1000)))
      (K * (P / D * 100 / 1000))"
    using q4 by (rule approx_mono) simp
  then show ?thesis
    using b4 unfolding row_daily_cost_def row_price_DM_def exact_daily_cost_def exact_price_DM_def P_def K_def D_def
    by (rule conjI)
qed

lemma approx_component_dollar:
  assumes "moderate perc" and "moderate MY" and "moderate price"
  shows "approx 3 (fmul (fmul (fdiv perc (lit 100)) MY) price)
           (exact_component (val MY) (val perc) * val price)
       \<and> in_band 307 (exact_component (val MY) (val perc) * val price)"
proof -
  define F M P where "F = val perc" and "M = val MY" and "P = val price"
  have f: "approx 0 perc F" and bf: "in_band 100 F"
    using moderate_approx [OF assms(1)] by (simp_all add: F_def)
  have m: "approx 0 MY M" and bm: "in_band 100 M"
    using moderate_approx [OF assms(2)] by (simp_all add: M_def)
  have p: "approx 0 price P" and bp: "in_band 100 P"
    using moderate_approx [OF assms(3)] by (simp_all add: P_def)
  have c100: "approx 0 (lit 100) 100" by (simp add: lit_100 near_def)
  have b1': "in_band 107 (F * (1 / 100))"
    using in_band_mult [OF bf in_band_inverse [of 7 100]] by simp
  then have b1: "in_band 107 (F / 100)" by simp
  have b2: "in_band 207 (F / 100 * M)" using in_band_mult [OF b1 bm] by simp
  have b3: "in_band 307 (F / 100 * M * P)" using in_band_mult [OF b2 bp] by simp
  have q1: "approx (Suc (0 + 0)) (fdiv perc (lit 100)) (F / 100)"
    by (rule approx_fdiv [OF f c100 _ in_band_range [OF b1]]) simp_all
  have q2: "approx (Suc (Suc (0 + 0) + 0)) (fmul (fdiv perc (lit 100)) MY) (F / 100 * M)"
    by (rule approx_fmul [OF q1 m in_band_range [OF b2]]) simp_all
  have q3: "approx (Suc (Suc (Suc (0 + 0) + 0) + 0))
      (fmul (fmul (fdiv perc (lit 100)) MY) price) (F / 100 * M * P)"
    by (rule approx_fmul [OF q2 p in_band_range [OF b3]]) simp_all
  have e: "F / 100 * M * P = exact_component M F * P" by (simp add: exact_component_def)
  have "approx 3 (fmul (fmul (fdiv perc (lit 100)) MY) price) (F / 100 * M * P)"
    using q3 by (rule approx_mono) simp
  then show ?thesis
    using b3 unfolding e unfolding F_def M_def P_def by (rule conjI)
qed

lemma approx_gram_dollar:
  assumes "moderate g" and "moderate price"
  shows "approx 2 (fmul (fdiv g (lit 1000)) price) (val g / 1000 * val price)
       \<and> in_band 210 (val g / 1000 * val price)"
proof -
  define G P where "G = val g" and "P = val price"
  have g: "approx 0 g G" and bg: "in_band 100 G"
    using moderate_approx [OF assms(1)] by (simp_all add: G_def)
  have p: "approx 0 price P" and bp: "in_band 100 P"
    using moderate_approx [OF assms(2)] by (simp_all add: P_def)
  have c1000: "approx 0 (lit 1000) 1000" by (simp add: lit_1000 near_def)
  have b1': "in_band 110 (G * (1 / 1000))"
    using in_band_mult [OF bg in_band_inverse [of 10 1000]] by simp
  then have b1: "in_band 110 (G / 1000)" by simp
  have b2: "in_band 210 (G / 1000 * P)" using in_band_mult [OF b1 bp] by simp
  have q1: "approx (Suc (0 + 0)) (fdiv g (lit 1000)) (G / 1000)"
    by (rule approx_fdiv [OF g c1000 _ in_band_range [OF b1]]) simp_all
  have q2: "approx (Suc (Suc (0 + 0) + 0)) (fmul (fdiv g (lit 1000)) price) (G / 1000 * P)"
    by (rule approx_fmul [OF q1 p in_band_range [OF b2]]) simp_all
  have "approx 2 (fmul (fdiv g (lit 1000)) price) (G / 1000 * P)"
    using q2 by (rule approx_mono) simp
  then show ?thesis
    using b2 unfolding G_def P_def by (rule conjI)
qed

lemma approx_three_terms:
  assumes "approx 3 a A" and "approx 3 b B" and "approx 3 c C"
    and "in_band 307 A" and "in_band 307 B" and "in_band 307 C"
  shows "approx 5 (fadd (fadd a b) c) (A + B + C) \<and> in_band 309 (A + B + C)"
proof -
  have b1: "in_band 308 (A + B)" using in_band_add [OF assms(4,5)] by simp
  have c': "in_band 308 C" using assms(6) by (rule in_band_mono) simp
  have b2: "in_band 309 (A + B + C)" using in_band_add [OF b1 c'] by simp
  have q1: "approx (Suc 3) (fadd a b) (A + B)"
    by (rule approx_fadd [OF assms(1,2) in_band_range [OF b1]]) simp_all
  have c4: "approx (Suc 3) c C" using assms(3) by (rule approx_mono) simp
  have q2: "approx (Suc (Suc 3)) (fadd (fadd a b) c) (A + B + C)"
    by (rule approx_fadd [OF q1 c4 in_band_range [OF b2]]) simp_all
  have "approx 5 (fadd (fadd a b) c) (A + B + C)"
    using q2 by (rule approx_mono) simp
  then show ?thesis using b2 by (rule conjI)
qed


section \<open>The difference\<close>

lemma round_mag_error_low:
  assumes "0 < q" and "q < pow2 (- 1022)"
  shows "\<exists>r. round_mag q = Some r \<and> \<bar>r - q\<bar> \<le> 1 / 2 ^ 1075"
proof -
  have "q < pow2 (- 1023 + 1)" using assms(2) by simp
  then have "ilog2 q \<le> - 1023" by (rule ilog2_le [OF assms(1)])
  then have u: "quantum q = pow2 (- 1074)" by (simp add: quantum_def)
  define r where "r = round_to (pow2 (- 1074)) q"
  have r: "r = of_int (rne (q / pow2 (- 1074))) * pow2 (- 1074)"
    by (simp add: r_def round_to_def)
  have "r - q = (of_int (rne (q / pow2 (- 1074))) - q / pow2 (- 1074)) * pow2 (- 1074)"
    by (simp add: r left_diff_distrib)
  then have "\<bar>r - q\<bar> = \<bar>of_int (rne (q / pow2 (- 1074))) - q / pow2 (- 1074)\<bar> * pow2 (- 1074)"
    by (simp only: abs_mult abs_of_pos [OF pow2_pos])
  also have "\<dots> \<le> 1 / 2 * pow2 (- 1074)"
    using rne_error [of "q / pow2 (- 1074)"]
    by (simp only: mult_le_cancel_right_pos [OF pow2_pos])
  also have "\<dots> = 1 / 2 ^ 1075" by (simp add: pow2_def)
  finally have err: "\<bar>r - q\<bar> \<le> 1 / 2 ^ 1075" .
  have "pow2 (- 1022) \<le> 1" by (simp add: pow2_def)
  then have "q < 1" using assms(2) by linarith
  moreover have "r \<le> q + 1 / 2 ^ 1075" using err by linarith
  moreover have "(1::rat) / 2 ^ 1075 \<le> 1" by simp
  ultimately have "r < 2" by linarith
  moreover have "(2::rat) \<le> 2 ^ 1024" by simp
  ultimately have "r < 2 ^ 1024" by linarith
  then have "round_mag q = Some r"
    using assms(1) by (simp add: round_mag_def check_overflow_def u r_def)
  then show ?thesis using err by simp
qed

lemma round_mag_error_any:
  assumes "0 < q" and "q \<le> 2 ^ 1023"
  shows "\<exists>r. round_mag q = Some r \<and> \<bar>r - q\<bar> \<le> q / 2 ^ 53 + 1 / 2 ^ 1075"
proof (cases "pow2 (- 1022) \<le> q")
  case True
  from round_mag_error [OF True assms(2)] obtain r where
    r: "round_mag q = Some r" and e: "\<bar>r - q\<bar> \<le> q / 2 ^ 53" by blast
  have "(0::rat) \<le> 1 / 2 ^ 1075" by simp
  then have "\<bar>r - q\<bar> \<le> q / 2 ^ 53 + 1 / 2 ^ 1075" using e by linarith
  then show ?thesis using r by simp
next
  case False
  then have "q < pow2 (- 1022)" by simp
  from round_mag_error_low [OF assms(1) this] obtain r where
    r: "round_mag q = Some r" and e: "\<bar>r - q\<bar> \<le> 1 / 2 ^ 1075" by blast
  have "0 \<le> q / 2 ^ 53" using assms(1) by simp
  then have "\<bar>r - q\<bar> \<le> q / 2 ^ 53 + 1 / 2 ^ 1075" using e by linarith
  then show ?thesis using r by simp
qed

lemma fsub_close:
  assumes "approx e x R" and "approx e y C" and "in_range R" and "in_range C"
    and "e \<le> 2 ^ 51"
  shows "\<exists>s r. fsub x y = Finite s r
      \<and> \<bar>val (Finite s r) - (R - C)\<bar> \<le> (R + C) * (of_nat e + 1) / 2 ^ 51"
proof -
  from approx_Finite [OF assms(1)] obtain a where x: "x = Finite False a" and a: "near e a R"
    by blast
  from approx_Finite [OF assms(2)] obtain b where y: "y = Finite False b" and b: "near e b C"
    by blast
  have R0: "0 \<le> R" and C0: "0 \<le> C" and a0: "0 \<le> a" and b0: "0 \<le> b"
    using a b by (simp_all add: near_def)
  have ea: "\<bar>a - R\<bar> \<le> R * of_nat e / 2 ^ 51" using a assms(5) by (rule near_error)
  have eb: "\<bar>b - C\<bar> \<le> C * of_nat e / 2 ^ 51" using b assms(5) by (rule near_error)
  have "\<bar>(a - b) - (R - C)\<bar> \<le> \<bar>a - R\<bar> + \<bar>b - C\<bar>" by simp
  also have "\<dots> \<le> R * of_nat e / 2 ^ 51 + C * of_nat e / 2 ^ 51" using ea eb by (rule add_mono)
  also have "\<dots> = (R + C) * of_nat e / 2 ^ 51" by (simp add: algebra_simps add_divide_distrib)
  finally have d: "\<bar>(a - b) - (R - C)\<bar> \<le> (R + C) * of_nat e / 2 ^ 51" .
  have step: "(R + C) * (of_nat e + 1) / 2 ^ 51 = (R + C) * of_nat e / 2 ^ 51 + (R + C) / 2 ^ 51"
    by (simp add: algebra_simps add_divide_distrib)
  have RC0: "0 \<le> (R + C) / 2 ^ 51" using R0 C0 by simp
  show ?thesis
  proof (cases "a - b = 0")
    case True
    then have fs: "fsub x y = Finite False 0" by (simp add: fsub_def x y)
    have "\<bar>val (Finite False 0) - (R - C)\<bar> = \<bar>(a - b) - (R - C)\<bar>" using True by simp
    then have "\<bar>val (Finite False 0) - (R - C)\<bar> \<le> (R + C) * of_nat e / 2 ^ 51"
      using d by (simp only:)
    then have "\<bar>val (Finite False 0) - (R - C)\<bar> \<le> (R + C) * (of_nat e + 1) / 2 ^ 51"
      unfolding step using RC0 by linarith
    then show ?thesis using fs by blast
  next
    case False
    define q where "q = \<bar>a - b\<bar>"
    have q0: "0 < q" using False by (simp add: q_def)
    have g: "round_factor ^ e \<le> 2" using assms(5) by (rule rf_pow_le2)
    have "a \<le> R * round_factor ^ e" using a by (simp add: near_def)
    also have "\<dots> \<le> R * 2" using g R0 by (rule mult_left_mono)
    finally have a2: "a \<le> 2 * R" by simp
    have "b \<le> C * round_factor ^ e" using b by (simp add: near_def)
    also have "\<dots> \<le> C * 2" using g C0 by (rule mult_left_mono)
    finally have b2: "b \<le> 2 * C" by simp
    have qab: "q \<le> a + b" using a0 b0 by (simp add: q_def)
    then have "q \<le> 2 * R + 2 * C" using a2 b2 by linarith
    then have q2: "q \<le> 2 * (R + C)" by simp
    have Rhi: "R \<le> 2 ^ 1000" and Chi: "C \<le> 2 ^ 1000"
      using assms(3,4) by (simp_all add: in_range_def)
    have "2 * (R + C) \<le> 2 * (2 ^ 1000 + 2 ^ 1000)" using Rhi Chi by simp
    also have "\<dots> \<le> (2::rat) ^ 1023" by simp
    finally have "2 * (R + C) \<le> 2 ^ 1023" .
    then have qhi: "q \<le> 2 ^ 1023" using q2 by (rule order_trans [rotated])
    from round_mag_error_any [OF q0 qhi] obtain r where
      r: "round_mag q = Some r" and er: "\<bar>r - q\<bar> \<le> q / 2 ^ 53 + 1 / 2 ^ 1075" by blast
    have f: "fsub x y = Finite (a - b < 0) r"
      using False r by (simp add: fsub_def x y round_val_def round_dbl_def q_def)
    have v: "\<bar>val (Finite (a - b < 0) r) - (a - b)\<bar> = \<bar>r - q\<bar>"
      by (cases "a - b < 0") (simp_all add: q_def abs_if)
    have "a \<noteq> 0 \<or> b \<noteq> 0" using False by auto
    then have "R \<noteq> 0 \<or> C \<noteq> 0" using a b by (auto dest: near_zero_right)
    then have "1 / 2 ^ 1000 \<le> R \<or> 1 / 2 ^ 1000 \<le> C"
      using assms(3,4) by (auto simp: in_range_def no_underflow_def)
    then have lo: "1 / 2 ^ 1000 \<le> R + C" using R0 C0 by linarith
    have "(1::rat) / 2 ^ 1075 \<le> 1 / 2 ^ 1000 / 2 ^ 52" by simp
    also have "\<dots> \<le> (R + C) / 2 ^ 52" using lo by (rule divide_right_mono) simp
    finally have t1: "1 / 2 ^ 1075 \<le> (R + C) / 2 ^ 52" .
    have "q / 2 ^ 53 \<le> 2 * (R + C) / 2 ^ 53" using q2 by (rule divide_right_mono) simp
    then have t2: "q / 2 ^ 53 \<le> (R + C) / 2 ^ 52" by simp
    have half: "(R + C) / 2 ^ 52 + (R + C) / 2 ^ 52 = (R + C) / 2 ^ 51" by simp
    have "\<bar>val (Finite (a - b < 0) r) - (R - C)\<bar>
        \<le> \<bar>val (Finite (a - b < 0) r) - (a - b)\<bar> + \<bar>(a - b) - (R - C)\<bar>"
      by simp
    also have "\<dots> \<le> (q / 2 ^ 53 + 1 / 2 ^ 1075) + (R + C) * of_nat e / 2 ^ 51"
      unfolding v using er d by (rule add_mono)
    also have "\<dots> \<le> (R + C) * of_nat e / 2 ^ 51 + (R + C) / 2 ^ 51"
      using t1 t2 half by linarith
    finally have "\<bar>val (Finite (a - b < 0) r) - (R - C)\<bar> \<le> (R + C) * (of_nat e + 1) / 2 ^ 51"
      unfolding step .
    then show ?thesis using f by blast
  qed
qed

lemma sum_list_le_length:
  "\<forall>x \<in> set xs. x \<le> (B :: rat) \<Longrightarrow> sum_list xs \<le> of_nat (length xs) * B"
  by (induction xs) (simp_all add: algebra_simps)

lemma approx_feed_cost:
  assumes "\<forall>x \<in> set xs. moderate (fp x) \<and> moderate (fk x) \<and> moderate (fd x) \<and> 0 < val (fd x)"
    and "length xs \<le> 2 ^ 50"
  shows "approx (length xs + 7) (nansum (map (\<lambda>x. row_daily_cost (fp x) (fk x) (fd x)) xs))
           (exact_feed_cost (map (\<lambda>x. (val (fp x), val (fk x), val (fd x))) xs))
       \<and> in_range (exact_feed_cost (map (\<lambda>x. (val (fp x), val (fk x), val (fd x))) xs))"
proof -
  define a where "a = map (\<lambda>x. row_daily_cost (fp x) (fk x) (fd x)) xs"
  define As where "As = map (\<lambda>x. exact_daily_cost (val (fp x)) (val (fk x)) (val (fd x))) xs"
  have ex: "exact_feed_cost (map (\<lambda>x. (val (fp x), val (fk x), val (fd x))) xs) = sum_list As"
    by (simp add: exact_feed_cost_def As_def comp_def)
  have pt: "approx 4 (row_daily_cost (fp x) (fk x) (fd x))
              (exact_daily_cost (val (fp x)) (val (fk x)) (val (fd x)))
          \<and> in_band 317 (exact_daily_cost (val (fp x)) (val (fk x)) (val (fd x)))"
    if "x \<in> set xs" for x
    using assms(1) that by (intro approx_daily_cost) simp_all
  have l: "list_all2 (approx 4) a As"
    using pt by (simp add: a_def As_def list_all2_conv_all_nth)
  have ab: "\<forall>X \<in> set As. no_underflow X"
    using pt in_band_no_underflow [of 317] by (auto simp: As_def)
  have hi: "\<forall>X \<in> set As. X \<le> 2 ^ 317"
    using pt in_band_upper [of 317] by (auto simp: As_def)
  have n: "(of_nat (length As) :: rat) \<le> of_nat (2 ^ 50)"
    using assms(2) by (simp only: of_nat_le_iff As_def length_map)
  have "sum_list As \<le> of_nat (length As) * 2 ^ 317" using hi by (rule sum_list_le_length)
  also have "\<dots> \<le> of_nat (2 ^ 50) * 2 ^ 317" using n by (rule mult_right_mono) simp
  also have "\<dots> \<le> (2::rat) ^ 1000" by simp
  finally have le: "sum_list As \<le> 2 ^ 1000" .
  have e: "4 + length a + 3 \<le> 2 ^ 51" using assms(2) by (simp add: a_def)
  from approx_nansum [OF l ab le e]
  have "approx (length xs + 7) (nansum a) (sum_list As)"
    by (rule approx_mono) (simp add: a_def)
  moreover have "in_range (sum_list As)" using ab le by (simp add: in_rangeI no_underflow_sum_list)
  ultimately show ?thesis unfolding ex a_def by (rule conjI)
qed


section \<open>The kilograms through grams and back\<close>

lemma near_in_band:
  assumes "near e s X" and "in_band n X" and "e \<le> 2 ^ 51"
  shows "in_band (Suc n) s"
proof (cases "X = 0")
  case True
  then have "s = 0" using assms(1) by (simp add: near_zero_right)
  then show ?thesis by (simp add: in_band_def)
next
  case False
  then have lo: "1 / 2 ^ n \<le> X" and hi: "X \<le> 2 ^ n" using assms(2) by (simp_all add: in_band_def)
  have g: "round_factor ^ e \<le> 2" using assms(3) by (rule rf_pow_le2)
  have s0: "0 \<le> s" and X0: "0 \<le> X" using assms(1) by (simp_all add: near_def)
  have "X \<le> s * round_factor ^ e" using assms(1) by (simp add: near_def)
  also have "\<dots> \<le> s * 2" using g s0 by (rule mult_left_mono)
  finally have "1 / 2 ^ n \<le> s * 2" using lo by linarith
  then have 1: "1 / 2 ^ Suc n \<le> s" by (simp add: field_simps)
  have "s \<le> X * round_factor ^ e" using assms(1) by (simp add: near_def)
  also have "\<dots> \<le> X * 2" using g X0 by (rule mult_left_mono)
  also have "\<dots> \<le> 2 ^ n * 2" using hi by simp
  finally have 2: "s \<le> 2 ^ Suc n" by simp
  show ?thesis using 1 2 by (simp add: in_band_def)
qed

lemma approx_component:
  assumes "moderate perc" and "moderate MY"
  shows "approx 2 (fmul (fdiv perc (lit 100)) MY) (exact_component (val MY) (val perc))
       \<and> in_band 207 (exact_component (val MY) (val perc))"
proof -
  define F M where "F = val perc" and "M = val MY"
  have f: "approx 0 perc F" and bf: "in_band 100 F"
    using moderate_approx [OF assms(1)] by (simp_all add: F_def)
  have m: "approx 0 MY M" and bm: "in_band 100 M"
    using moderate_approx [OF assms(2)] by (simp_all add: M_def)
  have c100: "approx 0 (lit 100) 100" by (simp add: lit_100 near_def)
  have b1': "in_band 107 (F * (1 / 100))"
    using in_band_mult [OF bf in_band_inverse [of 7 100]] by simp
  then have b1: "in_band 107 (F / 100)" by simp
  have b2: "in_band 207 (F / 100 * M)" using in_band_mult [OF b1 bm] by simp
  have q1: "approx (Suc (0 + 0)) (fdiv perc (lit 100)) (F / 100)"
    by (rule approx_fdiv [OF f c100 _ in_band_range [OF b1]]) simp_all
  have q2: "approx (Suc (Suc (0 + 0) + 0)) (fmul (fdiv perc (lit 100)) MY) (F / 100 * M)"
    by (rule approx_fmul [OF q1 m in_band_range [OF b2]]) simp_all
  have e: "F / 100 * M = exact_component M F" by (simp add: exact_component_def)
  have "approx 2 (fmul (fdiv perc (lit 100)) MY) (F / 100 * M)"
    using q2 by (rule approx_mono) simp
  then show ?thesis
    using b2 unfolding e unfolding F_def M_def by (rule conjI)
qed

lemma round_factor_4: "round_factor ^ 4 - 1 \<le> 1 / 2 ^ 50"
  by (simp add: round_factor_def power_divide)

lemma revenue_term_close:
  assumes "moderate perc" and "moderate MY" and "moderate price"
  shows "\<exists>a a'. fmul (fmul (fdiv perc (lit 100)) MY) price = Finite False a
      \<and> fmul (fdiv (fmul (lit 1000) (fmul (fdiv perc (lit 100)) MY)) (lit 1000)) price
          = Finite False a'
      \<and> \<bar>a' - a\<bar> \<le> a / 2 ^ 50"
proof -
  define k where "k = fmul (fdiv perc (lit 100)) MY"
  define P where "P = val price"
  from approx_component [OF assms(1,2)]
  have ka: "approx 2 k (exact_component (val MY) (val perc))"
    and kb: "in_band 207 (exact_component (val MY) (val perc))"
    by (simp_all add: k_def)
  from approx_Finite [OF ka] obtain kf where k: "k = Finite False kf"
    and kn: "near 2 kf (exact_component (val MY) (val perc))" by blast
  have bk: "in_band 208 kf" using near_in_band [OF kn kb] by simp
  have k0: "approx 0 k kf" using bk by (simp add: k near_refl in_band_nonneg)
  have p: "approx 0 price P" and bp: "in_band 100 P"
    using moderate_approx [OF assms(3)] by (simp_all add: P_def)
  have c1000: "approx 0 (lit 1000) 1000" by (simp add: lit_1000 near_def)
  have bX: "in_band 308 (kf * P)" using in_band_mult [OF bk bp] by simp
  have bg: "in_band 218 (1000 * kf)" using in_band_mult [OF in_band_1000 bk] by simp
  have bk': "in_band 208 (1000 * kf / 1000)" using bk by simp
  have bX': "in_band 308 (1000 * kf / 1000 * P)" using bX by simp
  have q: "approx (Suc (0 + 0)) (fmul k price) (kf * P)"
    by (rule approx_fmul [OF k0 p in_band_range [OF bX]]) simp_all
  have g: "approx (Suc (0 + 0)) (fmul (lit 1000) k) (1000 * kf)"
    by (rule approx_fmul [OF c1000 k0 in_band_range [OF bg]]) simp_all
  have k': "approx (Suc (Suc (0 + 0) + 0)) (fdiv (fmul (lit 1000) k) (lit 1000))
      (1000 * kf / 1000)"
    by (rule approx_fdiv [OF g c1000 _ in_band_range [OF bk']]) simp_all
  have q': "approx (Suc (Suc (Suc (0 + 0) + 0) + 0))
      (fmul (fdiv (fmul (lit 1000) k) (lit 1000)) price) (1000 * kf / 1000 * P)"
    by (rule approx_fmul [OF k' p in_band_range [OF bX']]) simp_all
  from approx_Finite [OF q] obtain a where a: "fmul k price = Finite False a"
    and an: "near (Suc (0 + 0)) a (kf * P)" by blast
  from approx_Finite [OF q'] obtain a' where
    a': "fmul (fdiv (fmul (lit 1000) k) (lit 1000)) price = Finite False a'"
    and an': "near (Suc (Suc (Suc (0 + 0) + 0) + 0)) a' (1000 * kf / 1000 * P)" by blast
  define X where "X = kf * P"
  have n1: "X \<le> a * round_factor" "a \<le> X * round_factor" and a0: "0 \<le> a"
    using an by (simp_all add: near_def X_def)
  have n3: "X \<le> a' * round_factor ^ 3" "a' \<le> X * round_factor ^ 3" and a0': "0 \<le> a'"
    using an' by (simp_all add: near_def X_def numeral_3_eq_3)
  have rf3: "0 \<le> round_factor ^ 3" using rf_pow_pos [of 3] by simp
  have "a' \<le> X * round_factor ^ 3" by (rule n3(2))
  also have "\<dots> \<le> (a * round_factor) * round_factor ^ 3" using n1(1) rf3 by (rule mult_right_mono)
  also have "\<dots> = a * round_factor ^ 4" by (simp add: power_def mult_ac)
  finally have up: "a' - a \<le> a * (round_factor ^ 4 - 1)" by (simp add: algebra_simps)
  have "a \<le> X * round_factor" by (rule n1(2))
  also have "\<dots> \<le> (a' * round_factor ^ 3) * round_factor"
    using n3(1) rf_pos by (intro mult_right_mono) simp_all
  also have "\<dots> = a' * round_factor ^ 4" by (simp add: power_def mult_ac)
  finally have dn: "a - a' \<le> a' * (round_factor ^ 4 - 1)" by (simp add: algebra_simps)
  have g0: "0 \<le> round_factor ^ 4 - 1" using rf_pow_ge1 [of 4] by simp
  have "\<bar>a' - a\<bar> \<le> a * (round_factor ^ 4 - 1)"
  proof (cases "a \<le> a'")
    case True
    then show ?thesis using up by simp
  next
    case False
    then have "a' * (round_factor ^ 4 - 1) \<le> a * (round_factor ^ 4 - 1)"
      using g0 by (intro mult_right_mono) simp_all
    then show ?thesis using dn False by simp
  qed
  also have "\<dots> \<le> a * (1 / 2 ^ 50)" using round_factor_4 a0 by (rule mult_left_mono)
  finally have "\<bar>a' - a\<bar> \<le> a / 2 ^ 50" by simp
  then show ?thesis using a a' unfolding k_def by blast
qed

section \<open>The returned value against the exact result\<close>

lemma iofc_close:
  assumes "approx 5 x R" and "in_range R" and "approx (n + 7) y C" and "in_range C"
    and "n \<le> 2 ^ 50"
  shows "\<exists>r c s v. x = Finite False r \<and> y = Finite False c \<and> fsub x y = Finite s v
      \<and> \<bar>r - R\<bar> \<le> R * 5 / 2 ^ 51
      \<and> \<bar>c - C\<bar> \<le> C * (of_nat n + 7) / 2 ^ 51
      \<and> \<bar>val (Finite s v) - (R - C)\<bar> \<le> (R + C) * (of_nat n + 8) / 2 ^ 51"
proof -
  from approx_Finite [OF assms(1)] obtain r where x: "x = Finite False r" and r: "near 5 r R"
    by blast
  from approx_Finite [OF assms(3)] obtain c where y: "y = Finite False c"
    and c: "near (n + 7) c C" by blast
  have e5: "(5::nat) \<le> 2 ^ 51" by simp
  have en: "n + 7 \<le> 2 ^ 51" using assms(5) by simp
  have 1: "\<bar>r - R\<bar> \<le> R * 5 / 2 ^ 51" using near_error [OF r e5] by simp
  have 2: "\<bar>c - C\<bar> \<le> C * (of_nat n + 7) / 2 ^ 51" using near_error [OF c en] by simp
  have x': "approx (n + 7) x R" using assms(1) by (rule approx_mono) simp
  from fsub_close [OF x' assms(3) assms(2) assms(4) en] obtain s v where
    f: "fsub x y = Finite s v"
    and 3: "\<bar>val (Finite s v) - (R - C)\<bar> \<le> (R + C) * (of_nat (n + 7) + 1) / 2 ^ 51"
    by blast
  have "(of_nat (n + 7) + 1 :: rat) = of_nat n + 8" by simp
  then have 3: "\<bar>val (Finite s v) - (R - C)\<bar> \<le> (R + C) * (of_nat n + 8) / 2 ^ 51"
    using 3 by (simp only:)
  show ?thesis using x y f 1 2 3 by blast
qed

lemma manual_close:
  assumes "moderate other_perc" and "moderate p_fat" and "moderate p_prot" and "moderate p_other"
    and "moderate MY" and "moderate fat_perc" and "moderate tprot_perc"
    and "\<forall>x \<in> set xs. moderate (fp x) \<and> moderate (fk x) \<and> moderate (fd x) \<and> 0 < val (fd x)"
    and "length xs \<le> 2 ^ 50"
    and "R = exact_revenue (exact_component (val MY) (val fat_perc))
               (exact_component (val MY) (val tprot_perc))
               (exact_component (val MY) (val other_perc)) (val p_fat) (val p_prot) (val p_other)"
    and "C = exact_feed_cost (map (\<lambda>x. (val (fp x), val (fk x), val (fd x))) xs)"
    and "revenue = fadd (fadd (fmul (fmul (fdiv fat_perc (lit 100)) MY) p_fat)
                            (fmul (fmul (fdiv tprot_perc (lit 100)) MY) p_prot))
                      (fmul (fmul (fdiv other_perc (lit 100)) MY) p_other)"
    and "feed_cost = nansum (map (\<lambda>x. row_daily_cost (fp x) (fk x) (fd x)) xs)"
  shows "\<exists>r c s v. revenue = Finite False r \<and> feed_cost = Finite False c
      \<and> fsub revenue feed_cost = Finite s v
      \<and> \<bar>r - R\<bar> \<le> R * 5 / 2 ^ 51
      \<and> \<bar>c - C\<bar> \<le> C * (of_nat (length xs) + 7) / 2 ^ 51
      \<and> \<bar>val (Finite s v) - (R - C)\<bar> \<le> (R + C) * (of_nat (length xs) + 8) / 2 ^ 51"
proof -
  note t1 = approx_component_dollar [OF assms(6,5,2)]
  note t2 = approx_component_dollar [OF assms(7,5,3)]
  note t3 = approx_component_dollar [OF assms(1,5,4)]
  from approx_three_terms [OF t1 [THEN conjunct1] t2 [THEN conjunct1] t3 [THEN conjunct1]
      t1 [THEN conjunct2] t2 [THEN conjunct2] t3 [THEN conjunct2]]
  have r: "approx 5 revenue R" and rb: "in_band 309 R"
    unfolding assms(10,12) exact_revenue_def by simp_all
  have rr: "in_range R" using rb by (rule in_band_range) simp
  from approx_feed_cost [OF assms(8,9)]
  have c: "approx (length xs + 7) feed_cost C" and cr: "in_range C"
    unfolding assms(11,13) by simp_all
  show ?thesis using r rr c cr assms(9) by (rule iofc_close)
qed

lemma nd_close:
  assumes "moderate other_perc" and "moderate p_fat" and "moderate p_prot" and "moderate p_other"
    and "moderate MY" and "moderate g_fat" and "moderate g_np"
    and "\<forall>x \<in> set xs. moderate (fp x) \<and> moderate (fk x) \<and> moderate (fd x) \<and> 0 < val (fd x)"
    and "length xs \<le> 2 ^ 50"
    and "R = exact_revenue (val g_fat / 1000) (val g_np / 1000)
               (exact_component (val MY) (val other_perc)) (val p_fat) (val p_prot) (val p_other)"
    and "C = exact_feed_cost (map (\<lambda>x. (val (fp x), val (fk x), val (fd x))) xs)"
    and "revenue = fadd (fadd (fmul (fdiv g_fat (lit 1000)) p_fat)
                            (fmul (fdiv g_np (lit 1000)) p_prot))
                      (fmul (fmul (fdiv other_perc (lit 100)) MY) p_other)"
    and "feed_cost = nansum (map (\<lambda>x. row_daily_cost (fp x) (fk x) (fd x)) xs)"
  shows "\<exists>r c s v. revenue = Finite False r \<and> feed_cost = Finite False c
      \<and> fsub revenue feed_cost = Finite s v
      \<and> \<bar>r - R\<bar> \<le> R * 5 / 2 ^ 51
      \<and> \<bar>c - C\<bar> \<le> C * (of_nat (length xs) + 7) / 2 ^ 51
      \<and> \<bar>val (Finite s v) - (R - C)\<bar> \<le> (R + C) * (of_nat (length xs) + 8) / 2 ^ 51"
proof -
  note g1 = approx_gram_dollar [OF assms(6,2)]
  note g2 = approx_gram_dollar [OF assms(7,3)]
  note t3 = approx_component_dollar [OF assms(1,5,4)]
  have a1: "approx 3 (fmul (fdiv g_fat (lit 1000)) p_fat) (val g_fat / 1000 * val p_fat)"
    using g1 [THEN conjunct1] by (rule approx_mono) simp
  have b1: "in_band 307 (val g_fat / 1000 * val p_fat)"
    using g1 [THEN conjunct2] by (rule in_band_mono) simp
  have a2: "approx 3 (fmul (fdiv g_np (lit 1000)) p_prot) (val g_np / 1000 * val p_prot)"
    using g2 [THEN conjunct1] by (rule approx_mono) simp
  have b2: "in_band 307 (val g_np / 1000 * val p_prot)"
    using g2 [THEN conjunct2] by (rule in_band_mono) simp
  from approx_three_terms [OF a1 a2 t3 [THEN conjunct1] b1 b2 t3 [THEN conjunct2]]
  have r: "approx 5 revenue R" and rb: "in_band 309 R"
    unfolding assms(10,12) exact_revenue_def by simp_all
  have rr: "in_range R" using rb by (rule in_band_range) simp
  from approx_feed_cost [OF assms(8,9)]
  have c: "approx (length xs + 7) feed_cost C" and cr: "in_range C"
    unfolding assms(11,13) by simp_all
  show ?thesis using r rr c cr assms(9) by (rule iofc_close)
qed

section \<open>The value each calculator returns\<close>

lemma manual_run:
  assumes "\<forall>r \<in> set df. ingredient_prices_asfed_tonne (Ingredient r) \<noteq> None"
    and "mc ''MY_kg_d'' = Some MY"
    and "mc ''Milk_Fat_perc'' = Some fat_perc"
    and "mc ''Milk_TProt_perc'' = Some tprot_perc"
    and "mp ''milk_other_solids_production_perc'' = Some other_perc"
    and "mp ''milk_fat_dollar_kg'' = Some p_fat"
    and "mp ''milk_protein_dollar_kg'' = Some p_prot"
    and "mp ''other_solids_dollar_kg'' = Some p_other"
    and "revenue = fadd (fadd (fmul (fmul (fdiv fat_perc (lit 100)) MY) p_fat)
                            (fmul (fmul (fdiv tprot_perc (lit 100)) MY) p_prot))
                      (fmul (fmul (fdiv other_perc (lit 100)) MY) p_other)"
    and "feed_cost = nansum (map (\<lambda>r. row_daily_cost (price_or_nan ip (Ingredient r))
                                     (kg_inclusion r) (DM_perc r)) df)"
  shows "calc_IOFC_manual mp mc ip df True =
       ([Print_kg_d (fmul (fdiv fat_perc (lit 100)) MY) (fmul (fdiv tprot_perc (lit 100)) MY)
           (fmul (fdiv other_perc (lit 100)) MY),
         Print_dollar_d (fmul (fmul (fdiv fat_perc (lit 100)) MY) p_fat)
           (fmul (fmul (fdiv tprot_perc (lit 100)) MY) p_prot)
           (fmul (fmul (fdiv other_perc (lit 100)) MY) p_other),
         Print_revenue revenue, Print_ration (assign_ration ip df),
         Print_diet_cost feed_cost, Print_IOFC (fsub revenue feed_cost)],
        Inr (fsub revenue feed_cost))"
    and "calc_IOFC_manual mp mc ip df False = ([], Inr (fsub revenue feed_cost))"
proof -
  have v: "list_all (\<lambda>b. b) (ingredient_validation df)"
    using assms(1) by (simp add: validation_iff)
  have c: "component_production mp mc =
      Inr (MY, fmul (fdiv fat_perc (lit 100)) MY, fmul (fdiv tprot_perc (lit 100)) MY,
           fmul (fdiv other_perc (lit 100)) MY)"
    using assms(2-5) by (simp add: component_production_def bind_err_def getitem_def)
  have r: "revenue_manual mp a b c = Inr (fmul a p_fat, fmul b p_prot, fmul c p_other)"
    for a b c
    using assms(6-8) by (simp add: revenue_manual_def bind_err_def getitem_def)
  show "calc_IOFC_manual mp mc ip df True =
       ([Print_kg_d (fmul (fdiv fat_perc (lit 100)) MY) (fmul (fdiv tprot_perc (lit 100)) MY)
           (fmul (fdiv other_perc (lit 100)) MY),
         Print_dollar_d (fmul (fmul (fdiv fat_perc (lit 100)) MY) p_fat)
           (fmul (fmul (fdiv tprot_perc (lit 100)) MY) p_prot)
           (fmul (fmul (fdiv other_perc (lit 100)) MY) p_other),
         Print_revenue revenue, Print_ration (assign_ration ip df),
         Print_diet_cost feed_cost, Print_IOFC (fsub revenue feed_cost)],
        Inr (fsub revenue feed_cost))"
    unfolding calc_IOFC_manual_def Let_def
    by (simp add: v c r daily_cost_rows assms(9,10))
  show "calc_IOFC_manual mp mc ip df False = ([], Inr (fsub revenue feed_cost))"
    unfolding calc_IOFC_manual_def Let_def
    by (simp add: v c r daily_cost_rows assms(9,10))
qed

lemma manual_value:
  assumes "\<forall>r \<in> set df. ingredient_prices_asfed_tonne (Ingredient r) \<noteq> None"
    and "mc ''MY_kg_d'' = Some MY"
    and "mc ''Milk_Fat_perc'' = Some fat_perc"
    and "mc ''Milk_TProt_perc'' = Some tprot_perc"
    and "mp ''milk_other_solids_production_perc'' = Some other_perc"
    and "mp ''milk_fat_dollar_kg'' = Some p_fat"
    and "mp ''milk_protein_dollar_kg'' = Some p_prot"
    and "mp ''other_solids_dollar_kg'' = Some p_other"
  shows "snd (calc_IOFC_manual mp mc ip df verbose) =
     Inr (fsub
       (fadd (fadd (fmul (fmul (fdiv fat_perc (lit 100)) MY) p_fat)
                   (fmul (fmul (fdiv tprot_perc (lit 100)) MY) p_prot))
             (fmul (fmul (fdiv other_perc (lit 100)) MY) p_other))
       (nansum (map (\<lambda>r. row_daily_cost (price_or_nan ip (Ingredient r))
                          (kg_inclusion r) (DM_perc r)) df)))"
  using manual_run [OF assms refl refl, of ip] by (cases verbose) simp_all

lemma nd_run:
  assumes "outputs mo ''Mlk_Fat_g'' = Some g_fat"
    and "outputs mo ''Mlk_NP_g'' = Some g_np"
    and "outputs mo ''Mlk_Prod'' = Some MY"
    and "mp ''milk_other_solids_production_perc'' = Some other_perc"
    and "mp ''milk_fat_dollar_kg'' = Some p_fat"
    and "mp ''milk_protein_dollar_kg'' = Some p_prot"
    and "mp ''other_solids_dollar_kg'' = Some p_other"
  shows "revenue_nd mp mo =
      Inr (fmul (fdiv g_fat (lit 1000)) p_fat, fmul (fdiv g_np (lit 1000)) p_prot,
           fmul (fmul (fdiv other_perc (lit 100)) MY) p_other)"
    and "calc_IOFC_nd mp ip mo =
      Inr (fsub
        (fadd (fadd (fmul (fdiv g_fat (lit 1000)) p_fat) (fmul (fdiv g_np (lit 1000)) p_prot))
              (fmul (fmul (fdiv other_perc (lit 100)) MY) p_other))
        (nansum (map dollar_fed_p_d (assign_diet ip (diet_info mo)))))"
proof -
  show r: "revenue_nd mp mo =
      Inr (fmul (fdiv g_fat (lit 1000)) p_fat, fmul (fdiv g_np (lit 1000)) p_prot,
           fmul (fmul (fdiv other_perc (lit 100)) MY) p_other)"
    using assms by (simp add: revenue_nd_def get_value_def bind_err_def getitem_def)
  show "calc_IOFC_nd mp ip mo =
      Inr (fsub
        (fadd (fadd (fmul (fdiv g_fat (lit 1000)) p_fat) (fmul (fdiv g_np (lit 1000)) p_prot))
              (fmul (fmul (fdiv other_perc (lit 100)) MY) p_other))
        (nansum (map dollar_fed_p_d (assign_diet ip (diet_info mo)))))"
    unfolding calc_IOFC_nd_def Let_def
    by (simp add: r bind_err_def)
qed

lemma example_keys:
  "milk_components ''MY_kg_d'' = Some (lit 31)"
  "milk_components ''Milk_Fat_perc'' = Some (lit 3.6)"
  "milk_components ''Milk_TProt_perc'' = Some (lit 3.3)"
  "milk_prices ''milk_other_solids_production_perc'' = Some (lit 5.7)"
  "milk_prices ''milk_fat_dollar_kg'' = Some (lit 13.3)"
  "milk_prices ''milk_protein_dollar_kg'' = Some (lit 10.96)"
  "milk_prices ''other_solids_dollar_kg'' = Some (lit 0.9)"
  by (simp_all add: milk_components_def milk_prices_def)

section \<open>The calculators on the store\<close>

lemma manual_st_value:
  assumes "deref h a_mp = Some (Dict_obj mp)" and "deref h a_mc = Some (Dict_obj mc)"
    and "deref h a_ip = Some (Dict_obj ip)" and "deref h a_df = Some (Ration_obj df)"
  shows "fst (calc_IOFC_manual_st h a_mp a_mc a_ip a_df verbose) =
           calc_IOFC_manual mp mc ip df verbose"
  using assms
  by (simp add: calc_IOFC_manual_st_def calc_IOFC_manual_def alloc_def deref_def nth_append Let_def
        split: sum.splits prod.splits)

lemma nd_st_value:
  assumes "deref h a_mp = Some (Dict_obj mp)" and "deref h a_ip = Some (Dict_obj ip)"
    and "deref h a_mo = Some (Model_obj mo)"
  shows "fst (calc_IOFC_nd_st h a_mp a_ip a_mo) = calc_IOFC_nd mp ip mo"
  using assms
  by (simp add: calc_IOFC_nd_st_def calc_IOFC_nd_def alloc_def deref_def nth_append Let_def bind_err_def
        split: sum.splits prod.splits)

lemma manual_st_frame:
  "\<exists>new. snd (calc_IOFC_manual_st h a_mp a_mc a_ip a_df verbose) = h @ new"
  by (simp add: calc_IOFC_manual_st_def alloc_def deref_def nth_append Let_def
        split: sum.splits prod.splits option.splits pyobj.splits)

lemma nd_st_frame:
  "\<exists>new. snd (calc_IOFC_nd_st h a_mp a_ip a_mo) = h @ new"
  by (simp add: calc_IOFC_nd_st_def alloc_def deref_def nth_append Let_def
        split: sum.splits prod.splits option.splits pyobj.splits)

section \<open>The claims\<close>

text \<open>
  Claim C2. On the example inputs of the repository (milk yield 31 kg/d, fat 3.6 %, true
  protein 3.3 %, other solids 5.7 %, prices 13.30, 10.96 and 0.90 dollars per kg, the
  seven-line ration priced from the example table) \<open>calc_IOFC_manual\<close> returns the
  double that Python prints as \<open>14.186574773808571\<close>, with \<open>verbose\<close> set or not.
  The run with \<open>verbose=True\<close> prints the intermediate values: the revenue is the double
  \<open>27.645180000000003\<close>, which is 27.65 to two decimals, and the diet cost is the double
  \<open>13.458605226191432\<close>, which is 13.46 to two decimals. The diet cost is the sum, from
  left to right, of the seven daily costs, which to four decimals are 0.1111, 5.3886,
  4.4727, 1.0632, 1.3636, 0.6593 and 0.4000. The figures of the claim are read as the
  values rounded to the decimals shown, as the program prints them.
\<close>

theorem manual_example_value:
  "snd (calc_IOFC_manual milk_prices milk_components ingredient_prices_asfed_tonne
          ration_list verbose) = Inr (lit 14.186574773808571)
   \<and> fst (calc_IOFC_manual milk_prices milk_components ingredient_prices_asfed_tonne
          ration_list True) =
     [Print_kg_d (lit 1.116) (lit 1.0230000000000001) (lit 1.7670000000000001),
      Print_dollar_d (lit 14.842800000000002) (lit 11.212080000000002) (lit 1.5903),
      Print_revenue (lit 27.645180000000003),
      Print_ration (assign_ration ingredient_prices_asfed_tonne ration_list),
      Print_diet_cost (lit 13.458605226191432),
      Print_IOFC (lit 14.186574773808571)]
   \<and> rne (val (lit 27.645180000000003) * 100) = 2765
   \<and> rne (val (lit 13.458605226191432) * 100) = 1346
   \<and> map daily_cost (assign_ration ingredient_prices_asfed_tonne ration_list) =
     [lit 0.11111111111111112, lit 5.388571428571428, lit 4.472727272727272,
      lit 1.0632183908045978, lit 1.3636363636363638, lit 0.6593406593406592, lit 0.4]
   \<and> add_seq (Finite False 0)
     [lit 0.11111111111111112, lit 5.388571428571428, lit 4.472727272727272,
      lit 1.0632183908045978, lit 1.3636363636363638, lit 0.6593406593406592, lit 0.4] =
     lit 13.458605226191432
   \<and> map (\<lambda>c. rne (val c * 10000))
     [lit 0.11111111111111112, lit 5.388571428571428, lit 4.472727272727272,
      lit 1.0632183908045978, lit 1.3636363636363638, lit 0.6593406593406592, lit 0.4] =
     [1111, 53886, 44727, 10632, 13636, 6593, 4000]"
  by (intro conjI example_return example_printed example_revenue_rounded
        example_diet_cost_rounded example_lines example_lines_sum example_lines_rounded)

text \<open>
  Claim C5. For all inputs, \<open>calc_IOFC_manual\<close> returns the same value, or raises the
  same error, with \<open>verbose=True\<close> as with \<open>verbose=False\<close>: the flag only adds to what
  is printed.
\<close>

theorem verbose_same_result:
  "snd (calc_IOFC_manual mp mc ip df True) = snd (calc_IOFC_manual mp mc ip df False)"
  by (simp add: calc_IOFC_manual_def Let_def split: sum.splits prod.splits)

text \<open>
  Claim C1 says that \<open>calc_IOFC_manual\<close> fails whenever the ration has an identifier
  that is not a key of the price table passed as \<open>ingredient_prices\<close>, and that it
  reports exactly those identifiers. The code tests the identifiers against the
  module-level table instead. With a price table that has no entry for Canola, a
  ration with Canola passes the test: nothing is raised, and the value returned is the
  revenue minus the cost of the Alfalfa line alone. With a price table that prices
  Barley, a ration of Barley is rejected, since Barley is not in the module-level table.
\<close>

theorem manual_validation_ignores_argument:
  "calc_IOFC_manual milk_prices milk_components (map_of [(''Alfalfa Silage'', lit 230)])
     [\<lparr>Ingredient = ''Alfalfa Silage'', kg_inclusion = lit 8.2, DM_perc = lit 35\<rparr>,
      \<lparr>Ingredient = ''Canola'', kg_inclusion = lit 1, DM_perc = lit 91\<rparr>] False
   = ([], Inr (lit 22.256608571428576))
   \<and> calc_IOFC_manual milk_prices milk_components (map_of [(''Barley'', lit 300)])
     [\<lparr>Ingredient = ''Barley'', kg_inclusion = lit 1, DM_perc = lit 88\<rparr>] False
   = ([], Inl (ValueError [''Barley'']))"
  unfolding calc_IOFC_manual_def Let_def
  by (simp add: ingredient_validation_def unmatched_ingredients_def
        price_table_values example_components example_revenue example_revenue_total
        daily_cost_rows row_eval sum_eval fsub_def lit_def float_eval)

text \<open>
  Claim C8 says that \<open>calc_IOFC_nd\<close> fails when a feedstuff of the diet table has no
  entry in the price table. The code looks the prices up with \<open>Series.map\<close>, which
  raises nothing: on a diet of Wheat straw and Alfalfa Silage and the example price
  table, which has no key \<open>Wheat straw\<close>, the call returns a number, the revenue minus
  the cost of the Alfalfa line alone.
\<close>

theorem nd_unpriced_feedstuff_returns:
  "calc_IOFC_nd milk_prices ingredient_prices_asfed_tonne
     \<lparr>outputs = map_of
        [(''Mlk_Fat_g'', lit 1116), (''Mlk_NP_g'', lit 1023), (''Mlk_Prod'', lit 31)],
      diet_info =
        [\<lparr>Feedstuff = ''Wheat straw'', Fd_DMInp = lit 0.0575, Fd_DM = lit 90,
            Fd_DMIn = lit 0.5\<rparr>,
         \<lparr>Feedstuff = ''Alfalfa Silage'', Fd_DMInp = lit 0.9425, Fd_DM = lit 35,
            Fd_DMIn = lit 8.2\<rparr>]\<rparr>
   = Inr (lit 22.256608571428576)"
  unfolding calc_IOFC_nd_def Let_def
  by (simp add: revenue_nd_def get_value_def bind_err_def getitem_def milk_prices_values
        price_table_values dollar_fed_rows row_eval sum_eval fsub_def lit_def float_eval)

text \<open>
  Claim C4 describes what happens when an identifier of the ration is missing from the
  price table passed as \<open>ingredient_prices\<close>: the validation passes, because it tests
  the module-level table; the line gets a \<open>NaN\<close> price from the map step; and the
  function returns \<open>NaN\<close>, so that the missing price shows in the result. The code does
  the first two and not the third. With a price table that prices Alfalfa Silage only
  and a ration of Canola alone, the validation passes, the price and the daily cost of
  the line are \<open>NaN\<close>, and \<open>Series.sum\<close> skips the \<open>NaN\<close> cell: the call returns the
  revenue, \<open>27.645180000000003\<close>, an ordinary number, as if Canola cost nothing. The
  comments of the source ask for an error here (\<open>Check ration_df ingredients have
  matching price\<close>, and, on the argument, \<open>must contain matches to all feedstuffs in
  ration\<close>); the validation line tests the wrong table, the defect shown under claim C1.
\<close>

theorem manual_unpriced_line_returns_number:
  "list_all (\<lambda>b. b)
     (ingredient_validation [\<lparr>Ingredient = ''Canola'', kg_inclusion = lit 1, DM_perc = lit 91\<rparr>])
   \<and> map price_asfed_t (assign_ration (map_of [(''Alfalfa Silage'', lit 230)])
        [\<lparr>Ingredient = ''Canola'', kg_inclusion = lit 1, DM_perc = lit 91\<rparr>]) = [NaN]
   \<and> map daily_cost (assign_ration (map_of [(''Alfalfa Silage'', lit 230)])
        [\<lparr>Ingredient = ''Canola'', kg_inclusion = lit 1, DM_perc = lit 91\<rparr>]) = [NaN]
   \<and> calc_IOFC_manual milk_prices milk_components (map_of [(''Alfalfa Silage'', lit 230)])
        [\<lparr>Ingredient = ''Canola'', kg_inclusion = lit 1, DM_perc = lit 91\<rparr>] False
     = ([], Inr (lit 27.645180000000003))
   \<and> \<not> isnan (lit 27.645180000000003)"
  unfolding calc_IOFC_manual_def Let_def
  by (simp add: ingredient_validation_def unmatched_ingredients_def
        price_table_values example_components example_revenue example_revenue_total
        daily_cost_rows price_asfed_rows row_eval sum_eval fsub_def lit_def float_eval)

text \<open>
  Claim C7, as stated, fails: it takes the gram outputs of the model to be
  \<open>1000 * (perc / 100 * MY_kg_d)\<close> and says the revenue terms of the two calculators are
  then equal. In floating point the division by 1000 does not always undo the product
  with 1000. With 3.0 % fat and 27 kg/d of milk the manual calculator prices
  \<open>0.8099999999999999\<close> kg/d of fat and gets \<open>10.773\<close> dollars; \<open>calc_IOFC_nd\<close>, given
  \<open>Mlk_Fat_g = 1000 * 0.8099999999999999\<close>, prices \<open>0.8099999999999998\<close> kg/d and gets
  \<open>10.772999999999998\<close> dollars.
\<close>

theorem revenue_terms_counterexample:
  "revenue_nd milk_prices
     \<lparr>outputs = map_of
        [(''Mlk_Fat_g'', fmul (lit 1000) (fmul (fdiv (lit 3) (lit 100)) (lit 27))),
         (''Mlk_NP_g'', fmul (lit 1000) (fmul (fdiv (lit 3.3) (lit 100)) (lit 27))),
         (''Mlk_Prod'', lit 27)],
      diet_info = []\<rparr>
     = Inr (lit 10.772999999999998, lit 9.765360000000001, lit 1.3851000000000002)
   \<and> component_production milk_prices
       (map_of [(''MY_kg_d'', lit 27), (''Milk_Fat_perc'', lit 3), (''Milk_TProt_perc'', lit 3.3)])
     = Inr (lit 27, lit 0.8099999999999999, lit 0.891, lit 1.5390000000000001)
   \<and> revenue_manual milk_prices (lit 0.8099999999999999) (lit 0.891) (lit 1.5390000000000001)
     = Inr (lit 10.773, lit 9.765360000000001, lit 1.3851000000000002)
   \<and> lit 10.772999999999998 \<noteq> lit 10.773"
  by (simp add: revenue_nd_def component_production_def revenue_manual_def get_value_def
        bind_err_def getitem_def milk_prices_values lit_def float_eval)


text \<open>
  Claim C7, amended. The two calculators share the revenue formula up to rounding. For
  every price catalog that holds the four keys read, whenever the model outputs
  \<open>Mlk_Fat_g\<close> and \<open>Mlk_NP_g\<close> are \<open>1000 * (Milk_Fat_perc / 100 * MY_kg_d)\<close> and
  \<open>1000 * (Milk_TProt_perc / 100 * MY_kg_d)\<close> as Python computes them, \<open>Mlk_Prod\<close> is
  \<open>MY_kg_d\<close>, and the milk yield, the two percentages and the fat and protein prices are
  of moderate size (not negative; zero or between \<open>2 ^ -100\<close> and \<open>2 ^ 100\<close>), the
  fat dollars of \<open>calc_IOFC_nd\<close> differ from the fat dollars of the manual calculator by
  at most the fraction \<open>2 ^ -50\<close> of the latter, the protein dollars likewise, and the
  other-solids dollars are the same double.
\<close>

theorem revenue_terms_agree_up_to_rounding:
  assumes "mc ''MY_kg_d'' = Some MY"
    and "mc ''Milk_Fat_perc'' = Some fat_perc"
    and "mc ''Milk_TProt_perc'' = Some tprot_perc"
    and "mp ''milk_other_solids_production_perc'' = Some other_perc"
    and "mp ''milk_fat_dollar_kg'' = Some p_fat"
    and "mp ''milk_protein_dollar_kg'' = Some p_prot"
    and "mp ''other_solids_dollar_kg'' = Some p_other"
    and "outputs mo ''Mlk_Fat_g'' = Some (fmul (lit 1000) (fmul (fdiv fat_perc (lit 100)) MY))"
    and "outputs mo ''Mlk_NP_g'' = Some (fmul (lit 1000) (fmul (fdiv tprot_perc (lit 100)) MY))"
    and "outputs mo ''Mlk_Prod'' = Some MY"
    and "moderate MY" and "moderate fat_perc" and "moderate tprot_perc"
    and "moderate p_fat" and "moderate p_prot"
  shows "\<exists>fat_kg tp_kg other_kg a b a' b' c.
      component_production mp mc = Inr (MY, fat_kg, tp_kg, other_kg)
    \<and> revenue_manual mp fat_kg tp_kg other_kg = Inr (Finite False a, Finite False b, c)
    \<and> revenue_nd mp mo = Inr (Finite False a', Finite False b', c)
    \<and> \<bar>a' - a\<bar> \<le> a / 2 ^ 50 \<and> \<bar>b' - b\<bar> \<le> b / 2 ^ 50"
proof -
  from revenue_term_close [OF assms(12,11,14)] obtain a a' where
    a: "fmul (fmul (fdiv fat_perc (lit 100)) MY) p_fat = Finite False a"
    and a': "fmul (fdiv (fmul (lit 1000) (fmul (fdiv fat_perc (lit 100)) MY)) (lit 1000)) p_fat
        = Finite False a'"
    and ea: "\<bar>a' - a\<bar> \<le> a / 2 ^ 50" by blast
  from revenue_term_close [OF assms(13,11,15)] obtain b b' where
    b: "fmul (fmul (fdiv tprot_perc (lit 100)) MY) p_prot = Finite False b"
    and b': "fmul (fdiv (fmul (lit 1000) (fmul (fdiv tprot_perc (lit 100)) MY)) (lit 1000)) p_prot
        = Finite False b'"
    and eb: "\<bar>b' - b\<bar> \<le> b / 2 ^ 50" by blast
  have c: "component_production mp mc =
      Inr (MY, fmul (fdiv fat_perc (lit 100)) MY, fmul (fdiv tprot_perc (lit 100)) MY,
           fmul (fdiv other_perc (lit 100)) MY)"
    using assms(1-4) by (simp add: component_production_def bind_err_def getitem_def)
  have m: "revenue_manual mp (fmul (fdiv fat_perc (lit 100)) MY)
        (fmul (fdiv tprot_perc (lit 100)) MY) (fmul (fdiv other_perc (lit 100)) MY) =
      Inr (Finite False a, Finite False b, fmul (fmul (fdiv other_perc (lit 100)) MY) p_other)"
    using assms(5-7) a b by (simp add: revenue_manual_def bind_err_def getitem_def)
  have n: "revenue_nd mp mo =
      Inr (Finite False a', Finite False b', fmul (fmul (fdiv other_perc (lit 100)) MY) p_other)"
    using nd_run(1) [OF assms(8,9,10,4,5,6,7)] a' b' by simp
  show ?thesis using c m n ea eb by blast
qed

theorem revenue_terms_agree_up_to_rounding_witness:
  "map_of [(''MY_kg_d'', lit 27), (''Milk_Fat_perc'', lit 3), (''Milk_TProt_perc'', lit 3.3)]
      ''MY_kg_d'' = Some (lit 27)
   \<and> map_of [(''MY_kg_d'', lit 27), (''Milk_Fat_perc'', lit 3), (''Milk_TProt_perc'', lit 3.3)]
      ''Milk_Fat_perc'' = Some (lit 3)
   \<and> map_of [(''MY_kg_d'', lit 27), (''Milk_Fat_perc'', lit 3), (''Milk_TProt_perc'', lit 3.3)]
      ''Milk_TProt_perc'' = Some (lit 3.3)
   \<and> milk_prices ''milk_other_solids_production_perc'' = Some (lit 5.7)
   \<and> milk_prices ''milk_fat_dollar_kg'' = Some (lit 13.3)
   \<and> milk_prices ''milk_protein_dollar_kg'' = Some (lit 10.96)
   \<and> milk_prices ''other_solids_dollar_kg'' = Some (lit 0.9)
   \<and> moderate (lit 27) \<and> moderate (lit 3) \<and> moderate (lit 3.3)
   \<and> moderate (lit 13.3) \<and> moderate (lit 10.96)
   \<and> (\<exists>fat_kg tp_kg other_kg a b a' b' c.
        component_production milk_prices
          (map_of [(''MY_kg_d'', lit 27), (''Milk_Fat_perc'', lit 3),
                   (''Milk_TProt_perc'', lit 3.3)])
          = Inr (lit 27, fat_kg, tp_kg, other_kg)
      \<and> revenue_manual milk_prices fat_kg tp_kg other_kg
          = Inr (Finite False a, Finite False b, c)
      \<and> revenue_nd milk_prices
          \<lparr>outputs = map_of
             [(''Mlk_Fat_g'', fmul (lit 1000) (fmul (fdiv (lit 3) (lit 100)) (lit 27))),
              (''Mlk_NP_g'', fmul (lit 1000) (fmul (fdiv (lit 3.3) (lit 100)) (lit 27))),
              (''Mlk_Prod'', lit 27)],
           diet_info = []\<rparr>
          = Inr (Finite False a', Finite False b', c)
      \<and> \<bar>a' - a\<bar> \<le> a / 2 ^ 50 \<and> \<bar>b' - b\<bar> \<le> b / 2 ^ 50)"
proof -
  let ?mc = "map_of [(''MY_kg_d'', lit 27), (''Milk_Fat_perc'', lit 3),
                     (''Milk_TProt_perc'', lit 3.3)]"
  let ?mo = "\<lparr>outputs = map_of
             [(''Mlk_Fat_g'', fmul (lit 1000) (fmul (fdiv (lit 3) (lit 100)) (lit 27))),
              (''Mlk_NP_g'', fmul (lit 1000) (fmul (fdiv (lit 3.3) (lit 100)) (lit 27))),
              (''Mlk_Prod'', lit 27)],
           diet_info = []\<rparr>"
  have k: "?mc ''MY_kg_d'' = Some (lit 27)" "?mc ''Milk_Fat_perc'' = Some (lit 3)"
    "?mc ''Milk_TProt_perc'' = Some (lit 3.3)"
    by simp_all
  have o: "outputs ?mo ''Mlk_Fat_g'' = Some (fmul (lit 1000) (fmul (fdiv (lit 3) (lit 100)) (lit 27)))"
    "outputs ?mo ''Mlk_NP_g'' = Some (fmul (lit 1000) (fmul (fdiv (lit 3.3) (lit 100)) (lit 27)))"
    "outputs ?mo ''Mlk_Prod'' = Some (lit 27)"
    by simp_all
  have m: "moderate (lit 27)" "moderate (lit 3)" "moderate (lit 3.3)"
    "moderate (lit 13.3)" "moderate (lit 10.96)"
    by (simp_all add: in_band_def lit_def float_eval)
  note c = revenue_terms_agree_up_to_rounding [of ?mc "lit 27" "lit 3" "lit 3.3" milk_prices
      "lit 5.7" "lit 13.3" "lit 10.96" "lit 0.9" ?mo, OF k example_keys(4-7) o m]
  show ?thesis
    by (intro conjI k example_keys(4-7) m c)
qed

text \<open>
  Claim C10, as stated, fails: it says that a ration line with \<open>DM_perc\<close> zero or
  negative is rejected with an error. The code has no check of \<open>DM_perc\<close>. With
  \<open>DM_perc = 0\<close> the division gives an infinite price and the call returns minus
  infinity; with \<open>DM_perc = -91\<close> the cost of the line is negative and the call returns
  \<open>28.304520659340664\<close>, more than the revenue.
\<close>

theorem manual_DM_perc_counterexample:
  "snd (calc_IOFC_manual milk_prices milk_components ingredient_prices_asfed_tonne
          [\<lparr>Ingredient = ''Canola'', kg_inclusion = lit 1, DM_perc = lit 0\<rparr>] False)
     = Inr (Infinity True)
   \<and> snd (calc_IOFC_manual milk_prices milk_components ingredient_prices_asfed_tonne
          [\<lparr>Ingredient = ''Canola'', kg_inclusion = lit 1, DM_perc = lit (- 91)\<rparr>] False)
     = Inr (lit 28.304520659340664)"
  unfolding calc_IOFC_manual_def Let_def
  by (simp add: ingredient_validation_def unmatched_ingredients_def
        price_table_values example_components example_revenue example_revenue_total
        daily_cost_rows row_eval sum_eval fsub_def lit_def float_eval)


text \<open>
  Claim C10, amended. \<open>calc_IOFC_manual\<close> does not validate \<open>DM_perc\<close>: for every
  ration whose identifiers are all priced in the table passed in and pass the validation
  of the code (they are keys of the module-level table as well), and dictionaries that
  hold their seven keys, the call raises nothing, whatever the values of \<open>DM_perc\<close>
  are, zero and negative ones included, and returns the revenue minus the feed cost
  computed with the division \<open>price_asfed / DM_perc\<close> as it is.
\<close>

theorem manual_DM_perc_unchecked:
  assumes "\<forall>r \<in> set df. ip (Ingredient r) \<noteq> None"
    and "\<forall>r \<in> set df. ingredient_prices_asfed_tonne (Ingredient r) \<noteq> None"
    and "mc ''MY_kg_d'' = Some MY"
    and "mc ''Milk_Fat_perc'' = Some fat_perc"
    and "mc ''Milk_TProt_perc'' = Some tprot_perc"
    and "mp ''milk_other_solids_production_perc'' = Some other_perc"
    and "mp ''milk_fat_dollar_kg'' = Some p_fat"
    and "mp ''milk_protein_dollar_kg'' = Some p_prot"
    and "mp ''other_solids_dollar_kg'' = Some p_other"
  shows "snd (calc_IOFC_manual mp mc ip df verbose) =
     Inr (fsub
       (fadd (fadd (fmul (fmul (fdiv fat_perc (lit 100)) MY) p_fat)
                   (fmul (fmul (fdiv tprot_perc (lit 100)) MY) p_prot))
             (fmul (fmul (fdiv other_perc (lit 100)) MY) p_other))
       (nansum (map (\<lambda>r. fmul (kg_inclusion r)
            (fdiv (fmul (fdiv (the (ip (Ingredient r))) (DM_perc r)) (lit 100))
               (lit 1000))) df)))"
proof -
  have "map (\<lambda>r. row_daily_cost (price_or_nan ip (Ingredient r)) (kg_inclusion r) (DM_perc r)) df
      = map (\<lambda>r. fmul (kg_inclusion r)
            (fdiv (fmul (fdiv (the (ip (Ingredient r))) (DM_perc r)) (lit 100))
               (lit 1000))) df"
    using assms(1) by (auto simp: row_eval)
  then show ?thesis
    using manual_value [OF assms(2-9), of ip verbose] by (simp only:)
qed

theorem manual_DM_perc_unchecked_witness:
  "ingredient_prices_asfed_tonne ''Canola'' \<noteq> None
   \<and> ingredient_prices_asfed_tonne ''Tallow'' \<noteq> None
   \<and> milk_components ''MY_kg_d'' = Some (lit 31)
   \<and> milk_components ''Milk_Fat_perc'' = Some (lit 3.6)
   \<and> milk_components ''Milk_TProt_perc'' = Some (lit 3.3)
   \<and> milk_prices ''milk_other_solids_production_perc'' = Some (lit 5.7)
   \<and> milk_prices ''milk_fat_dollar_kg'' = Some (lit 13.3)
   \<and> milk_prices ''milk_protein_dollar_kg'' = Some (lit 10.96)
   \<and> milk_prices ''other_solids_dollar_kg'' = Some (lit 0.9)
   \<and> snd (calc_IOFC_manual milk_prices milk_components ingredient_prices_asfed_tonne
          [\<lparr>Ingredient = ''Canola'', kg_inclusion = lit 1, DM_perc = lit 0\<rparr>,
           \<lparr>Ingredient = ''Tallow'', kg_inclusion = lit 1, DM_perc = lit (- 91)\<rparr>] True)
      = Inr (fsub
          (fadd (fadd (fmul (fmul (fdiv (lit 3.6) (lit 100)) (lit 31)) (lit 13.3))
                      (fmul (fmul (fdiv (lit 3.3) (lit 100)) (lit 31)) (lit 10.96)))
                (fmul (fmul (fdiv (lit 5.7) (lit 100)) (lit 31)) (lit 0.9)))
          (nansum
            [fmul (lit 1)
               (fdiv (fmul (fdiv (the (ingredient_prices_asfed_tonne ''Canola''))
                  (lit 0)) (lit 100)) (lit 1000)),
             fmul (lit 1)
               (fdiv (fmul (fdiv (the (ingredient_prices_asfed_tonne ''Tallow''))
                  (lit (- 91))) (lit 100)) (lit 1000))]))"
proof -
  have h: "\<forall>r \<in> set [\<lparr>Ingredient = ''Canola'', kg_inclusion = lit 1, DM_perc = lit 0\<rparr>,
                \<lparr>Ingredient = ''Tallow'', kg_inclusion = lit 1, DM_perc = lit (- 91)\<rparr>].
       ingredient_prices_asfed_tonne (Ingredient r) \<noteq> None"
    by (simp add: price_table_values)
  show ?thesis
    using h example_keys
      manual_DM_perc_unchecked [OF h h example_keys, of True]
    by simp
qed

text \<open>
  Claim C6, as stated, fails: it says that for a line with \<open>DM_perc = 100\<close> the
  dry-matter price \<open>price_asfed / DM_perc * 100\<close> equals the as-fed price exactly. In
  binary64 the quotient by 100 is rounded and the product with 100 is rounded again:
  for Alfalfa Silage at 230 dollars per tonne in the example table the calculator
  computes the dry-matter price \<open>229.99999999999997\<close>.
\<close>

theorem DM_adjustment_at_100_counterexample:
  "map price_asfed_t (assign_ration ingredient_prices_asfed_tonne
      [\<lparr>Ingredient = ''Alfalfa Silage'', kg_inclusion = lit 8.2, DM_perc = lit 100\<rparr>])
     = [lit 230]
   \<and> map price_DM_t (assign_ration ingredient_prices_asfed_tonne
      [\<lparr>Ingredient = ''Alfalfa Silage'', kg_inclusion = lit 8.2, DM_perc = lit 100\<rparr>])
     = [lit 229.99999999999997]
   \<and> lit 229.99999999999997 \<noteq> lit 230"
  by (simp add: price_asfed_rows price_DM_rows row_eval price_table_values lit_def float_eval)

text \<open>
  Claim C6, amended. For every single-ingredient ration whose line has \<open>DM_perc = 100\<close>
  and a price \<open>p\<close> in the price table, the dry-matter price computed by the calculator
  equals the as-fed price up to the two roundings: for \<open>p\<close> between \<open>2 ^ -1000\<close> and
  \<open>2 ^ 1000\<close> the two differ by at most \<open>p / 2 ^ 52 + p / 2 ^ 106\<close>. They are
  equal exactly when the price is a whole multiple of 100 below \<open>2 ^ 53\<close>.
\<close>

theorem DM_adjustment_at_100:
  assumes "ip (Ingredient r) = Some (Finite False p)" and "DM_perc r = lit 100"
  shows "map price_asfed_t (assign_ration ip [r]) = [Finite False p]
    \<and> (1 / 2 ^ 1000 \<le> p \<and> p \<le> 2 ^ 1000 \<longrightarrow>
         (\<exists>z. map price_DM_t (assign_ration ip [r]) = [Finite False z]
              \<and> \<bar>z - p\<bar> \<le> p / 2 ^ 52 + p / 2 ^ 106))
    \<and> (0 \<le> k \<and> p = 100 * of_int k \<and> p < 2 ^ 53 \<longrightarrow>
         map price_DM_t (assign_ration ip [r]) = map price_asfed_t (assign_ration ip [r]))"
proof -
  have a: "map price_asfed_t (assign_ration ip [r]) = [Finite False p]"
    using assms(1) by (simp add: price_asfed_rows price_or_nan_def)
  have d: "map price_DM_t (assign_ration ip [r]) = [row_price_DM (Finite False p) (lit 100)]"
    using assms by (simp add: price_DM_rows price_or_nan_def)
  show ?thesis
    using price_DM_100_error [of p] price_DM_100_exact [of k p]
    by (auto simp: a d)
qed

theorem DM_adjustment_at_100_witness:
  "ingredient_prices_asfed_tonne ''Alfalfa Silage'' = Some (Finite False 230)
   \<and> ingredient_prices_asfed_tonne ''Canola'' = Some (Finite False 600)
   \<and> (1::rat) / 2 ^ 1000 \<le> 230 \<and> (230::rat) \<le> 2 ^ 1000
   \<and> (600::rat) = 100 * of_int 6 \<and> (600::rat) < 2 ^ 53
   \<and> (\<exists>z. map price_DM_t (assign_ration ingredient_prices_asfed_tonne
          [\<lparr>Ingredient = ''Alfalfa Silage'', kg_inclusion = lit 8.2, DM_perc = lit 100\<rparr>])
            = [Finite False z]
          \<and> \<bar>z - 230\<bar> \<le> 230 / 2 ^ 52 + 230 / 2 ^ 106)
   \<and> map price_DM_t (assign_ration ingredient_prices_asfed_tonne
          [\<lparr>Ingredient = ''Canola'', kg_inclusion = lit 1, DM_perc = lit 100\<rparr>])
     = map price_asfed_t (assign_ration ingredient_prices_asfed_tonne
          [\<lparr>Ingredient = ''Canola'', kg_inclusion = lit 1, DM_perc = lit 100\<rparr>])"
proof -
  let ?a = "\<lparr>Ingredient = ''Alfalfa Silage'', kg_inclusion = lit 8.2, DM_perc = lit 100\<rparr>"
  let ?c = "\<lparr>Ingredient = ''Canola'', kg_inclusion = lit 1, DM_perc = lit 100\<rparr>"
  have pa: "ingredient_prices_asfed_tonne ''Alfalfa Silage'' = Some (Finite False 230)"
    and pc: "ingredient_prices_asfed_tonne ''Canola'' = Some (Finite False 600)"
    by (simp_all add: price_table_values)
  have pa': "ingredient_prices_asfed_tonne (Ingredient ?a) = Some (Finite False 230)"
    and pc': "ingredient_prices_asfed_tonne (Ingredient ?c) = Some (Finite False 600)"
    using pa pc by simp_all
  have da: "DM_perc ?a = lit 100" and dc: "DM_perc ?c = lit 100" by simp_all
  have n1: "(1::rat) / 2 ^ 1000 \<le> 230" and n2: "(230::rat) \<le> 2 ^ 1000"
    and n3: "(600::rat) = 100 * of_int 6" and n4: "(600::rat) < 2 ^ 53"
    by simp_all
  note ca = DM_adjustment_at_100 [of ingredient_prices_asfed_tonne ?a 230 0, OF pa' da]
  note cc = DM_adjustment_at_100 [of ingredient_prices_asfed_tonne ?c 600 6, OF pc' dc]
  have 1: "\<exists>z. map price_DM_t (assign_ration ingredient_prices_asfed_tonne [?a]) = [Finite False z]
          \<and> \<bar>z - 230\<bar> \<le> 230 / 2 ^ 52 + 230 / 2 ^ 106"
    by (rule ca [THEN conjunct2, THEN conjunct1, THEN mp]) (rule conjI [OF n1 n2])
  have 2: "map price_DM_t (assign_ration ingredient_prices_asfed_tonne [?c])
     = map price_asfed_t (assign_ration ingredient_prices_asfed_tonne [?c])"
    by (rule cc [THEN conjunct2, THEN conjunct2, THEN mp]) (simp only: n3 n4, simp)
  show ?thesis
    by (intro conjI pa pc n1 n2 n3 n4 1 2)
qed

text \<open>
  Claim C3, as stated, fails in two ways. It says that the value returned equals the
  revenue minus the feed cost of the formulas exactly. The calculators compute in
  binary64 and every operation rounds: on the example of the repository the call
  returns the double \<open>14.186574773808571\<close>, which is not the number that the formulas
  of the specification give on the same inputs. It also says so for every valid input.
  A ration of Barley is valid with a price table that prices Barley, and the manual
  calculator rejects it, because its validation tests the module-level table: this is
  the defect shown under claim C1, and the amended claim leaves such rations aside.
\<close>

theorem iofc_exact_counterexample:
  "calc_IOFC_manual milk_prices milk_components ingredient_prices_asfed_tonne ration_list False
     = ([], Inr (lit 14.186574773808571))
   \<and> val (lit 14.186574773808571) \<noteq>
       exact_revenue (exact_component (val (lit 31)) (val (lit 3.6)))
         (exact_component (val (lit 31)) (val (lit 3.3)))
         (exact_component (val (lit 31)) (val (lit 5.7)))
         (val (lit 13.3)) (val (lit 10.96)) (val (lit 0.9))
       - exact_feed_cost
           (map (\<lambda>r. (val (price_or_nan ingredient_prices_asfed_tonne (Ingredient r)),
                       val (kg_inclusion r), val (DM_perc r))) ration_list)
   \<and> map_of [(''Barley'', lit 300)] ''Barley'' \<noteq> None
   \<and> calc_IOFC_manual milk_prices milk_components (map_of [(''Barley'', lit 300)])
        [\<lparr>Ingredient = ''Barley'', kg_inclusion = lit 1, DM_perc = lit 88\<rparr>] False
     = ([], Inl (ValueError [''Barley'']))"
proof -
  have 1: "calc_IOFC_manual milk_prices milk_components ingredient_prices_asfed_tonne
      ration_list False = ([], Inr (lit 14.186574773808571))"
    by (simp add: calc_IOFC_manual_def Let_def example_steps lit_def float_eval)
  have 2: "val (lit 14.186574773808571) \<noteq>
       exact_revenue (exact_component (val (lit 31)) (val (lit 3.6)))
         (exact_component (val (lit 31)) (val (lit 3.3)))
         (exact_component (val (lit 31)) (val (lit 5.7)))
         (val (lit 13.3)) (val (lit 10.96)) (val (lit 0.9))
       - exact_feed_cost
           (map (\<lambda>r. (val (price_or_nan ingredient_prices_asfed_tonne (Ingredient r)),
                       val (kg_inclusion r), val (DM_perc r))) ration_list)"
    by (simp add: exact_revenue_def exact_component_def exact_feed_cost_def exact_daily_cost_def
          exact_price_DM_def price_or_nan_def price_table_values ration_list_values
          lit_def float_eval)
  have 3: "map_of [(''Barley'', lit 300)] ''Barley'' \<noteq> None" by simp
  have 4: "calc_IOFC_manual milk_prices milk_components (map_of [(''Barley'', lit 300)])
        [\<lparr>Ingredient = ''Barley'', kg_inclusion = lit 1, DM_perc = lit 88\<rparr>] False
     = ([], Inl (ValueError [''Barley'']))"
    unfolding calc_IOFC_manual_def Let_def
    by (simp add: ingredient_validation_def unmatched_ingredients_def price_table_values)
  show ?thesis by (intro conjI 1 2 3 4)
qed

text \<open>
  Claim C3, amended. Take an input whose dictionaries and model output hold the keys
  read and whose lines are all priced in the table passed in; for the manual calculator
  let the identifiers also pass the validation of the code, that is, be keys of the
  module-level table. Then each calculator raises nothing and returns the difference of
  its revenue and its feed cost, the two values that the manual calculator prints with
  \<open>verbose=True\<close>. When the quantities and prices are finite and not negative, the milk
  percentages lie in \<open>[0, 100]\<close> and every dry-matter percentage lies in \<open>(0, 100]\<close>,
  the revenue and the feed cost are each \<open>>= 0\<close>. When the quantities, percentages and
  prices are of moderate size (not negative; zero or between \<open>2 ^ -100\<close> and
  \<open>2 ^ 100\<close>), every dry-matter percentage is positive and there are at most
  \<open>2 ^ 50\<close> lines, the values agree with the formulas of the specification up to
  rounding. Let \<open>R\<close> be the revenue
  \<open>fat * price_fat + true_protein * price_protein + other_solids * price_other\<close> and
  \<open>C\<close> the sum over all \<open>n\<close> lines of \<open>kg * (price_asfed / DM_perc * 100 / 1000)\<close>,
  both in exact arithmetic on the values of the inputs. The revenue computed differs
  from \<open>R\<close> by at most \<open>5 * R / 2 ^ 51\<close>, the feed cost computed differs from \<open>C\<close> by
  at most \<open>(n + 7) * C / 2 ^ 51\<close>, and the value returned is a finite double that
  differs from \<open>R - C\<close> by at most \<open>(n + 8) * (R + C) / 2 ^ 51\<close>.
\<close>

theorem iofc_is_revenue_minus_feed_cost_up_to_rounding:
  assumes "mp ''milk_other_solids_production_perc'' = Some other_perc"
    and "mp ''milk_fat_dollar_kg'' = Some p_fat"
    and "mp ''milk_protein_dollar_kg'' = Some p_prot"
    and "mp ''other_solids_dollar_kg'' = Some p_other"
    and "mc ''MY_kg_d'' = Some MY"
    and "mc ''Milk_Fat_perc'' = Some fat_perc"
    and "mc ''Milk_TProt_perc'' = Some tprot_perc"
    and "\<forall>r \<in> set df. ip (Ingredient r) \<noteq> None"
    and "\<forall>r \<in> set df. ingredient_prices_asfed_tonne (Ingredient r) \<noteq> None"
    and "outputs mo ''Mlk_Fat_g'' = Some g_fat"
    and "outputs mo ''Mlk_NP_g'' = Some g_np"
    and "outputs mo ''Mlk_Prod'' = Some Mlk_Prod"
    and "\<forall>r \<in> set (diet_info mo). ip (Feedstuff r) \<noteq> None"
  shows
    "(\<exists>kg dollars revenue table feed_cost.
        calc_IOFC_manual mp mc ip df True =
          ([kg, dollars, Print_revenue revenue, table, Print_diet_cost feed_cost,
            Print_IOFC (fsub revenue feed_cost)], Inr (fsub revenue feed_cost))
      \<and> calc_IOFC_manual mp mc ip df False = ([], Inr (fsub revenue feed_cost))
      \<and> (percentage other_perc \<and> finite_ge0 p_fat \<and> finite_ge0 p_prot \<and> finite_ge0 p_other
           \<and> finite_ge0 MY \<and> percentage fat_perc \<and> percentage tprot_perc
           \<and> (\<forall>r \<in> set df. finite_ge0 (price_or_nan ip (Ingredient r))
                 \<and> finite_ge0 (kg_inclusion r) \<and> dm_percentage (DM_perc r))
         \<longrightarrow> fge0 revenue \<and> fge0 feed_cost)
      \<and> (moderate other_perc \<and> moderate p_fat \<and> moderate p_prot \<and> moderate p_other
           \<and> moderate MY \<and> moderate fat_perc \<and> moderate tprot_perc
           \<and> (\<forall>r \<in> set df. moderate (price_or_nan ip (Ingredient r))
                 \<and> moderate (kg_inclusion r) \<and> moderate (DM_perc r) \<and> 0 < val (DM_perc r))
           \<and> length df \<le> 2 ^ 50
         \<longrightarrow> (\<exists>R C r c s v.
               R = exact_revenue (exact_component (val MY) (val fat_perc))
                     (exact_component (val MY) (val tprot_perc))
                     (exact_component (val MY) (val other_perc))
                     (val p_fat) (val p_prot) (val p_other)
             \<and> C = exact_feed_cost
                     (map (\<lambda>r. (val (price_or_nan ip (Ingredient r)), val (kg_inclusion r),
                                 val (DM_perc r))) df)
             \<and> revenue = Finite False r \<and> feed_cost = Finite False c
             \<and> fsub revenue feed_cost = Finite s v
             \<and> \<bar>r - R\<bar> \<le> R * 5 / 2 ^ 51
             \<and> \<bar>c - C\<bar> \<le> C * (of_nat (length df) + 7) / 2 ^ 51
             \<and> \<bar>val (Finite s v) - (R - C)\<bar> \<le> (R + C) * (of_nat (length df) + 8) / 2 ^ 51)))
   \<and> (\<exists>a b c revenue feed_cost.
        revenue_nd mp mo = Inr (a, b, c)
      \<and> revenue = fadd (fadd a b) c
      \<and> feed_cost = nansum (map dollar_fed_p_d (assign_diet ip (diet_info mo)))
      \<and> calc_IOFC_nd mp ip mo = Inr (fsub revenue feed_cost)
      \<and> (percentage other_perc \<and> finite_ge0 p_fat \<and> finite_ge0 p_prot \<and> finite_ge0 p_other
           \<and> finite_ge0 Mlk_Prod \<and> finite_ge0 g_fat \<and> finite_ge0 g_np
           \<and> (\<forall>r \<in> set (diet_info mo). finite_ge0 (price_or_nan ip (Feedstuff r))
                 \<and> finite_ge0 (Fd_DMIn r) \<and> dm_percentage (Fd_DM r))
         \<longrightarrow> fge0 revenue \<and> fge0 feed_cost)
      \<and> (moderate other_perc \<and> moderate p_fat \<and> moderate p_prot \<and> moderate p_other
           \<and> moderate Mlk_Prod \<and> moderate g_fat \<and> moderate g_np
           \<and> (\<forall>r \<in> set (diet_info mo). moderate (price_or_nan ip (Feedstuff r))
                 \<and> moderate (Fd_DMIn r) \<and> moderate (Fd_DM r) \<and> 0 < val (Fd_DM r))
           \<and> length (diet_info mo) \<le> 2 ^ 50
         \<longrightarrow> (\<exists>R C r c s v.
               R = exact_revenue (val g_fat / 1000) (val g_np / 1000)
                     (exact_component (val Mlk_Prod) (val other_perc))
                     (val p_fat) (val p_prot) (val p_other)
             \<and> C = exact_feed_cost
                     (map (\<lambda>r. (val (price_or_nan ip (Feedstuff r)), val (Fd_DMIn r),
                                 val (Fd_DM r))) (diet_info mo))
             \<and> revenue = Finite False r \<and> feed_cost = Finite False c
             \<and> fsub revenue feed_cost = Finite s v
             \<and> \<bar>r - R\<bar> \<le> R * 5 / 2 ^ 51
             \<and> \<bar>c - C\<bar> \<le> C * (of_nat (length (diet_info mo)) + 7) / 2 ^ 51
             \<and> \<bar>val (Finite s v) - (R - C)\<bar>
                 \<le> (R + C) * (of_nat (length (diet_info mo)) + 8) / 2 ^ 51)))"
proof (rule conjI)
  define revenue where "revenue =
      fadd (fadd (fmul (fmul (fdiv fat_perc (lit 100)) MY) p_fat)
                 (fmul (fmul (fdiv tprot_perc (lit 100)) MY) p_prot))
           (fmul (fmul (fdiv other_perc (lit 100)) MY) p_other)"
  define feed_cost where "feed_cost =
      nansum (map (\<lambda>r. row_daily_cost (price_or_nan ip (Ingredient r))
                         (kg_inclusion r) (DM_perc r)) df)"
  note run = manual_run [OF assms(9,5,6,7,1,2,3,4) revenue_def feed_cost_def]
  have N: "percentage other_perc \<and> finite_ge0 p_fat \<and> finite_ge0 p_prot \<and> finite_ge0 p_other
           \<and> finite_ge0 MY \<and> percentage fat_perc \<and> percentage tprot_perc
           \<and> (\<forall>r \<in> set df. finite_ge0 (price_or_nan ip (Ingredient r))
                 \<and> finite_ge0 (kg_inclusion r) \<and> dm_percentage (DM_perc r))
         \<longrightarrow> fge0 revenue \<and> fge0 feed_cost"
  proof (intro impI conjI)
    assume h: "percentage other_perc \<and> finite_ge0 p_fat \<and> finite_ge0 p_prot \<and> finite_ge0 p_other
           \<and> finite_ge0 MY \<and> percentage fat_perc \<and> percentage tprot_perc
           \<and> (\<forall>r \<in> set df. finite_ge0 (price_or_nan ip (Ingredient r))
                 \<and> finite_ge0 (kg_inclusion r) \<and> dm_percentage (DM_perc r))"
    then show "fge0 revenue"
      unfolding revenue_def by (intro revenue_ge0 component_kg_finite) simp_all
    from h show "fge0 feed_cost"
      unfolding feed_cost_def by (intro feed_cost_ge0) simp
  qed
  have M: "moderate other_perc \<and> moderate p_fat \<and> moderate p_prot \<and> moderate p_other
           \<and> moderate MY \<and> moderate fat_perc \<and> moderate tprot_perc
           \<and> (\<forall>r \<in> set df. moderate (price_or_nan ip (Ingredient r))
                 \<and> moderate (kg_inclusion r) \<and> moderate (DM_perc r) \<and> 0 < val (DM_perc r))
           \<and> length df \<le> 2 ^ 50
         \<longrightarrow> (\<exists>R C r c s v.
               R = exact_revenue (exact_component (val MY) (val fat_perc))
                     (exact_component (val MY) (val tprot_perc))
                     (exact_component (val MY) (val other_perc))
                     (val p_fat) (val p_prot) (val p_other)
             \<and> C = exact_feed_cost
                     (map (\<lambda>r. (val (price_or_nan ip (Ingredient r)), val (kg_inclusion r),
                                 val (DM_perc r))) df)
             \<and> revenue = Finite False r \<and> feed_cost = Finite False c
             \<and> fsub revenue feed_cost = Finite s v
             \<and> \<bar>r - R\<bar> \<le> R * 5 / 2 ^ 51
             \<and> \<bar>c - C\<bar> \<le> C * (of_nat (length df) + 7) / 2 ^ 51
             \<and> \<bar>val (Finite s v) - (R - C)\<bar> \<le> (R + C) * (of_nat (length df) + 8) / 2 ^ 51)"
  proof
    assume h: "moderate other_perc \<and> moderate p_fat \<and> moderate p_prot \<and> moderate p_other
           \<and> moderate MY \<and> moderate fat_perc \<and> moderate tprot_perc
           \<and> (\<forall>r \<in> set df. moderate (price_or_nan ip (Ingredient r))
                 \<and> moderate (kg_inclusion r) \<and> moderate (DM_perc r) \<and> 0 < val (DM_perc r))
           \<and> length df \<le> 2 ^ 50"
    then have m: "moderate other_perc" "moderate p_fat" "moderate p_prot" "moderate p_other"
      "moderate MY" "moderate fat_perc" "moderate tprot_perc"
      "\<forall>r \<in> set df. moderate (price_or_nan ip (Ingredient r))
                 \<and> moderate (kg_inclusion r) \<and> moderate (DM_perc r) \<and> 0 < val (DM_perc r)"
      "length df \<le> 2 ^ 50"
      by simp_all
    from manual_close [OF m refl refl revenue_def feed_cost_def]
    show "\<exists>R C r c s v.
               R = exact_revenue (exact_component (val MY) (val fat_perc))
                     (exact_component (val MY) (val tprot_perc))
                     (exact_component (val MY) (val other_perc))
                     (val p_fat) (val p_prot) (val p_other)
             \<and> C = exact_feed_cost
                     (map (\<lambda>r. (val (price_or_nan ip (Ingredient r)), val (kg_inclusion r),
                                 val (DM_perc r))) df)
             \<and> revenue = Finite False r \<and> feed_cost = Finite False c
             \<and> fsub revenue feed_cost = Finite s v
             \<and> \<bar>r - R\<bar> \<le> R * 5 / 2 ^ 51
             \<and> \<bar>c - C\<bar> \<le> C * (of_nat (length df) + 7) / 2 ^ 51
             \<and> \<bar>val (Finite s v) - (R - C)\<bar> \<le> (R + C) * (of_nat (length df) + 8) / 2 ^ 51"
      by blast
  qed
  show "\<exists>kg dollars revenue table feed_cost.
        calc_IOFC_manual mp mc ip df True =
          ([kg, dollars, Print_revenue revenue, table, Print_diet_cost feed_cost,
            Print_IOFC (fsub revenue feed_cost)], Inr (fsub revenue feed_cost))
      \<and> calc_IOFC_manual mp mc ip df False = ([], Inr (fsub revenue feed_cost))
      \<and> (percentage other_perc \<and> finite_ge0 p_fat \<and> finite_ge0 p_prot \<and> finite_ge0 p_other
           \<and> finite_ge0 MY \<and> percentage fat_perc \<and> percentage tprot_perc
           \<and> (\<forall>r \<in> set df. finite_ge0 (price_or_nan ip (Ingredient r))
                 \<and> finite_ge0 (kg_inclusion r) \<and> dm_percentage (DM_perc r))
         \<longrightarrow> fge0 revenue \<and> fge0 feed_cost)
      \<and> (moderate other_perc \<and> moderate p_fat \<and> moderate p_prot \<and> moderate p_other
           \<and> moderate MY \<and> moderate fat_perc \<and> moderate tprot_perc
           \<and> (\<forall>r \<in> set df. moderate (price_or_nan ip (Ingredient r))
                 \<and> moderate (kg_inclusion r) \<and> moderate (DM_perc r) \<and> 0 < val (DM_perc r))
           \<and> length df \<le> 2 ^ 50
         \<longrightarrow> (\<exists>R C r c s v.
               R = exact_revenue (exact_component (val MY) (val fat_perc))
                     (exact_component (val MY) (val tprot_perc))
                     (exact_component (val MY) (val other_perc))
                     (val p_fat) (val p_prot) (val p_other)
             \<and> C = exact_feed_cost
                     (map (\<lambda>r. (val (price_or_nan ip (Ingredient r)), val (kg_inclusion r),
                                 val (DM_perc r))) df)
             \<and> revenue = Finite False r \<and> feed_cost = Finite False c
             \<and> fsub revenue feed_cost = Finite s v
             \<and> \<bar>r - R\<bar> \<le> R * 5 / 2 ^ 51
             \<and> \<bar>c - C\<bar> \<le> C * (of_nat (length df) + 7) / 2 ^ 51
             \<and> \<bar>val (Finite s v) - (R - C)\<bar> \<le> (R + C) * (of_nat (length df) + 8) / 2 ^ 51))"
    by (intro exI conjI) (rule run(1) run(2) N M)+
next
  define a where "a = fmul (fdiv g_fat (lit 1000)) p_fat"
  define b where "b = fmul (fdiv g_np (lit 1000)) p_prot"
  define c where "c = fmul (fmul (fdiv other_perc (lit 100)) Mlk_Prod) p_other"
  define revenue where "revenue = fadd (fadd a b) c"
  define feed_cost where
    "feed_cost = nansum (map dollar_fed_p_d (assign_diet ip (diet_info mo)))"
  note run = nd_run [OF assms(10,11,12,1,2,3,4)]
  have r1: "revenue_nd mp mo = Inr (a, b, c)" using run(1) by (simp add: a_def b_def c_def)
  have r2: "calc_IOFC_nd mp ip mo = Inr (fsub revenue feed_cost)"
    using run(2) by (simp add: a_def b_def c_def revenue_def feed_cost_def)
  have rv: "revenue = fadd (fadd (fmul (fdiv g_fat (lit 1000)) p_fat)
                            (fmul (fdiv g_np (lit 1000)) p_prot))
                      (fmul (fmul (fdiv other_perc (lit 100)) Mlk_Prod) p_other)"
    by (simp add: a_def b_def c_def revenue_def)
  have fc: "feed_cost = nansum (map (\<lambda>r. row_daily_cost (price_or_nan ip (Feedstuff r))
                                     (Fd_DMIn r) (Fd_DM r)) (diet_info mo))"
    by (simp add: feed_cost_def dollar_fed_rows)
  have N: "percentage other_perc \<and> finite_ge0 p_fat \<and> finite_ge0 p_prot \<and> finite_ge0 p_other
           \<and> finite_ge0 Mlk_Prod \<and> finite_ge0 g_fat \<and> finite_ge0 g_np
           \<and> (\<forall>r \<in> set (diet_info mo). finite_ge0 (price_or_nan ip (Feedstuff r))
                 \<and> finite_ge0 (Fd_DMIn r) \<and> dm_percentage (Fd_DM r))
         \<longrightarrow> fge0 revenue \<and> fge0 feed_cost"
  proof (intro impI conjI)
    assume h: "percentage other_perc \<and> finite_ge0 p_fat \<and> finite_ge0 p_prot \<and> finite_ge0 p_other
           \<and> finite_ge0 Mlk_Prod \<and> finite_ge0 g_fat \<and> finite_ge0 g_np
           \<and> (\<forall>r \<in> set (diet_info mo). finite_ge0 (price_or_nan ip (Feedstuff r))
                 \<and> finite_ge0 (Fd_DMIn r) \<and> dm_percentage (Fd_DM r))"
    then show "fge0 revenue"
      unfolding rv by (intro revenue_ge0 component_kg_finite fdiv_1000_finite) simp_all
    from h show "fge0 feed_cost"
      unfolding fc by (intro feed_cost_ge0) simp
  qed
  have M: "moderate other_perc \<and> moderate p_fat \<and> moderate p_prot \<and> moderate p_other
           \<and> moderate Mlk_Prod \<and> moderate g_fat \<and> moderate g_np
           \<and> (\<forall>r \<in> set (diet_info mo). moderate (price_or_nan ip (Feedstuff r))
                 \<and> moderate (Fd_DMIn r) \<and> moderate (Fd_DM r) \<and> 0 < val (Fd_DM r))
           \<and> length (diet_info mo) \<le> 2 ^ 50
         \<longrightarrow> (\<exists>R C r c s v.
               R = exact_revenue (val g_fat / 1000) (val g_np / 1000)
                     (exact_component (val Mlk_Prod) (val other_perc))
                     (val p_fat) (val p_prot) (val p_other)
             \<and> C = exact_feed_cost
                     (map (\<lambda>r. (val (price_or_nan ip (Feedstuff r)), val (Fd_DMIn r),
                                 val (Fd_DM r))) (diet_info mo))
             \<and> revenue = Finite False r \<and> feed_cost = Finite False c
             \<and> fsub revenue feed_cost = Finite s v
             \<and> \<bar>r - R\<bar> \<le> R * 5 / 2 ^ 51
             \<and> \<bar>c - C\<bar> \<le> C * (of_nat (length (diet_info mo)) + 7) / 2 ^ 51
             \<and> \<bar>val (Finite s v) - (R - C)\<bar>
                 \<le> (R + C) * (of_nat (length (diet_info mo)) + 8) / 2 ^ 51)"
  proof
    assume h: "moderate other_perc \<and> moderate p_fat \<and> moderate p_prot \<and> moderate p_other
           \<and> moderate Mlk_Prod \<and> moderate g_fat \<and> moderate g_np
           \<and> (\<forall>r \<in> set (diet_info mo). moderate (price_or_nan ip (Feedstuff r))
                 \<and> moderate (Fd_DMIn r) \<and> moderate (Fd_DM r) \<and> 0 < val (Fd_DM r))
           \<and> length (diet_info mo) \<le> 2 ^ 50"
    then have m: "moderate other_perc" "moderate p_fat" "moderate p_prot" "moderate p_other"
      "moderate Mlk_Prod" "moderate g_fat" "moderate g_np"
      "\<forall>r \<in> set (diet_info mo). moderate (price_or_nan ip (Feedstuff r))
                 \<and> moderate (Fd_DMIn r) \<and> moderate (Fd_DM r) \<and> 0 < val (Fd_DM r)"
      "length (diet_info mo) \<le> 2 ^ 50"
      by simp_all
    from nd_close [OF m refl refl rv fc]
    show "\<exists>R C r c s v.
               R = exact_revenue (val g_fat / 1000) (val g_np / 1000)
                     (exact_component (val Mlk_Prod) (val other_perc))
                     (val p_fat) (val p_prot) (val p_other)
             \<and> C = exact_feed_cost
                     (map (\<lambda>r. (val (price_or_nan ip (Feedstuff r)), val (Fd_DMIn r),
                                 val (Fd_DM r))) (diet_info mo))
             \<and> revenue = Finite False r \<and> feed_cost = Finite False c
             \<and> fsub revenue feed_cost = Finite s v
             \<and> \<bar>r - R\<bar> \<le> R * 5 / 2 ^ 51
             \<and> \<bar>c - C\<bar> \<le> C * (of_nat (length (diet_info mo)) + 7) / 2 ^ 51
             \<and> \<bar>val (Finite s v) - (R - C)\<bar>
                 \<le> (R + C) * (of_nat (length (diet_info mo)) + 8) / 2 ^ 51"
      by blast
  qed
  show "\<exists>a b c revenue feed_cost.
        revenue_nd mp mo = Inr (a, b, c)
      \<and> revenue = fadd (fadd a b) c
      \<and> feed_cost = nansum (map dollar_fed_p_d (assign_diet ip (diet_info mo)))
      \<and> calc_IOFC_nd mp ip mo = Inr (fsub revenue feed_cost)
      \<and> (percentage other_perc \<and> finite_ge0 p_fat \<and> finite_ge0 p_prot \<and> finite_ge0 p_other
           \<and> finite_ge0 Mlk_Prod \<and> finite_ge0 g_fat \<and> finite_ge0 g_np
           \<and> (\<forall>r \<in> set (diet_info mo). finite_ge0 (price_or_nan ip (Feedstuff r))
                 \<and> finite_ge0 (Fd_DMIn r) \<and> dm_percentage (Fd_DM r))
         \<longrightarrow> fge0 revenue \<and> fge0 feed_cost)
      \<and> (moderate other_perc \<and> moderate p_fat \<and> moderate p_prot \<and> moderate p_other
           \<and> moderate Mlk_Prod \<and> moderate g_fat \<and> moderate g_np
           \<and> (\<forall>r \<in> set (diet_info mo). moderate (price_or_nan ip (Feedstuff r))
                 \<and> moderate (Fd_DMIn r) \<and> moderate (Fd_DM r) \<and> 0 < val (Fd_DM r))
           \<and> length (diet_info mo) \<le> 2 ^ 50
         \<longrightarrow> (\<exists>R C r c s v.
               R = exact_revenue (val g_fat / 1000) (val g_np / 1000)
                     (exact_component (val Mlk_Prod) (val other_perc))
                     (val p_fat) (val p_prot) (val p_other)
             \<and> C = exact_feed_cost
                     (map (\<lambda>r. (val (price_or_nan ip (Feedstuff r)), val (Fd_DMIn r),
                                 val (Fd_DM r))) (diet_info mo))
             \<and> revenue = Finite False r \<and> feed_cost = Finite False c
             \<and> fsub revenue feed_cost = Finite s v
             \<and> \<bar>r - R\<bar> \<le> R * 5 / 2 ^ 51
             \<and> \<bar>c - C\<bar> \<le> C * (of_nat (length (diet_info mo)) + 7) / 2 ^ 51
             \<and> \<bar>val (Finite s v) - (R - C)\<bar>
                 \<le> (R + C) * (of_nat (length (diet_info mo)) + 8) / 2 ^ 51))"
    by (intro exI conjI) (rule r1 revenue_def feed_cost_def r2 N M)+
qed

theorem iofc_is_revenue_minus_feed_cost_up_to_rounding_witness:
  "milk_prices ''milk_other_solids_production_perc'' = Some (lit 5.7)
   \<and> milk_prices ''milk_fat_dollar_kg'' = Some (lit 13.3)
   \<and> milk_prices ''milk_protein_dollar_kg'' = Some (lit 10.96)
   \<and> milk_prices ''other_solids_dollar_kg'' = Some (lit 0.9)
   \<and> milk_components ''MY_kg_d'' = Some (lit 31)
   \<and> milk_components ''Milk_Fat_perc'' = Some (lit 3.6)
   \<and> milk_components ''Milk_TProt_perc'' = Some (lit 3.3)
   \<and> list_all (\<lambda>r. ingredient_prices_asfed_tonne (Ingredient r) \<noteq> None) ration_list
   \<and> outputs sample_output ''Mlk_Fat_g'' = Some (lit 1116)
   \<and> outputs sample_output ''Mlk_NP_g'' = Some (lit 1023)
   \<and> outputs sample_output ''Mlk_Prod'' = Some (lit 31)
   \<and> list_all (\<lambda>r. ingredient_prices_asfed_tonne (Feedstuff r) \<noteq> None)
        (diet_info sample_output)
   \<and> percentage (lit 5.7) \<and> finite_ge0 (lit 13.3) \<and> finite_ge0 (lit 10.96)
   \<and> finite_ge0 (lit 0.9) \<and> finite_ge0 (lit 31) \<and> percentage (lit 3.6)
   \<and> percentage (lit 3.3) \<and> finite_ge0 (lit 1116) \<and> finite_ge0 (lit 1023)
   \<and> list_all (\<lambda>r. finite_ge0 (price_or_nan ingredient_prices_asfed_tonne (Ingredient r))
          \<and> finite_ge0 (kg_inclusion r) \<and> dm_percentage (DM_perc r)) ration_list
   \<and> list_all (\<lambda>r. finite_ge0 (price_or_nan ingredient_prices_asfed_tonne (Feedstuff r))
          \<and> finite_ge0 (Fd_DMIn r) \<and> dm_percentage (Fd_DM r)) (diet_info sample_output)
   \<and> moderate (lit 5.7) \<and> moderate (lit 13.3) \<and> moderate (lit 10.96) \<and> moderate (lit 0.9)
   \<and> moderate (lit 31) \<and> moderate (lit 3.6) \<and> moderate (lit 3.3)
   \<and> moderate (lit 1116) \<and> moderate (lit 1023)
   \<and> list_all (\<lambda>r. moderate (price_or_nan ingredient_prices_asfed_tonne (Ingredient r))
          \<and> moderate (kg_inclusion r) \<and> moderate (DM_perc r) \<and> 0 < val (DM_perc r))
        ration_list
   \<and> list_all (\<lambda>r. moderate (price_or_nan ingredient_prices_asfed_tonne (Feedstuff r))
          \<and> moderate (Fd_DMIn r) \<and> moderate (Fd_DM r) \<and> 0 < val (Fd_DM r))
        (diet_info sample_output)
   \<and> length ration_list \<le> 2 ^ 50 \<and> length (diet_info sample_output) \<le> 2 ^ 50
   \<and> (\<exists>kg dollars revenue table feed_cost R C r c s v.
        calc_IOFC_manual milk_prices milk_components ingredient_prices_asfed_tonne
            ration_list True =
          ([kg, dollars, Print_revenue revenue, table, Print_diet_cost feed_cost,
            Print_IOFC (fsub revenue feed_cost)], Inr (fsub revenue feed_cost))
      \<and> calc_IOFC_manual milk_prices milk_components ingredient_prices_asfed_tonne
            ration_list False = ([], Inr (fsub revenue feed_cost))
      \<and> fge0 revenue \<and> fge0 feed_cost
      \<and> R = exact_revenue (exact_component (val (lit 31)) (val (lit 3.6)))
               (exact_component (val (lit 31)) (val (lit 3.3)))
               (exact_component (val (lit 31)) (val (lit 5.7)))
               (val (lit 13.3)) (val (lit 10.96)) (val (lit 0.9))
      \<and> C = exact_feed_cost
               (map (\<lambda>r. (val (price_or_nan ingredient_prices_asfed_tonne (Ingredient r)),
                           val (kg_inclusion r), val (DM_perc r))) ration_list)
      \<and> revenue = Finite False r \<and> feed_cost = Finite False c
      \<and> fsub revenue feed_cost = Finite s v
      \<and> \<bar>r - R\<bar> \<le> R * 5 / 2 ^ 51
      \<and> \<bar>c - C\<bar> \<le> C * (of_nat (length ration_list) + 7) / 2 ^ 51
      \<and> \<bar>val (Finite s v) - (R - C)\<bar> \<le> (R + C) * (of_nat (length ration_list) + 8) / 2 ^ 51)
   \<and> (\<exists>a b c revenue feed_cost R C r c' s v.
        revenue_nd milk_prices sample_output = Inr (a, b, c)
      \<and> revenue = fadd (fadd a b) c
      \<and> feed_cost = nansum (map dollar_fed_p_d
            (assign_diet ingredient_prices_asfed_tonne (diet_info sample_output)))
      \<and> calc_IOFC_nd milk_prices ingredient_prices_asfed_tonne sample_output
          = Inr (fsub revenue feed_cost)
      \<and> fge0 revenue \<and> fge0 feed_cost
      \<and> R = exact_revenue (val (lit 1116) / 1000) (val (lit 1023) / 1000)
               (exact_component (val (lit 31)) (val (lit 5.7)))
               (val (lit 13.3)) (val (lit 10.96)) (val (lit 0.9))
      \<and> C = exact_feed_cost
               (map (\<lambda>r. (val (price_or_nan ingredient_prices_asfed_tonne (Feedstuff r)),
                           val (Fd_DMIn r), val (Fd_DM r))) (diet_info sample_output))
      \<and> revenue = Finite False r \<and> feed_cost = Finite False c'
      \<and> fsub revenue feed_cost = Finite s v
      \<and> \<bar>r - R\<bar> \<le> R * 5 / 2 ^ 51
      \<and> \<bar>c' - C\<bar> \<le> C * (of_nat (length (diet_info sample_output)) + 7) / 2 ^ 51
      \<and> \<bar>val (Finite s v) - (R - C)\<bar>
          \<le> (R + C) * (of_nat (length (diet_info sample_output)) + 8) / 2 ^ 51)"
proof -
  have v: "list_all (\<lambda>r. ingredient_prices_asfed_tonne (Ingredient r) \<noteq> None) ration_list"
    by (simp add: price_table_values ration_list_values)
  have o: "outputs sample_output ''Mlk_Fat_g'' = Some (lit 1116)"
    "outputs sample_output ''Mlk_NP_g'' = Some (lit 1023)"
    "outputs sample_output ''Mlk_Prod'' = Some (lit 31)"
    by (simp_all add: sample_output_def)
  have vn: "list_all (\<lambda>r. ingredient_prices_asfed_tonne (Feedstuff r) \<noteq> None)
        (diet_info sample_output)"
    by (simp add: sample_output_def price_table_values)
  have n: "percentage (lit 5.7)" "finite_ge0 (lit 13.3)" "finite_ge0 (lit 10.96)"
    "finite_ge0 (lit 0.9)" "finite_ge0 (lit 31)" "percentage (lit 3.6)"
    "percentage (lit 3.3)" "finite_ge0 (lit 1116)" "finite_ge0 (lit 1023)"
    by (simp_all add: percentage_def max_double_def lit_def float_eval)
  have lm: "list_all (\<lambda>r. finite_ge0 (price_or_nan ingredient_prices_asfed_tonne (Ingredient r))
          \<and> finite_ge0 (kg_inclusion r) \<and> dm_percentage (DM_perc r)) ration_list"
    by (simp add: ration_list_values price_or_nan_def price_table_values max_double_def)
  have ln: "list_all (\<lambda>r. finite_ge0 (price_or_nan ingredient_prices_asfed_tonne (Feedstuff r))
          \<and> finite_ge0 (Fd_DMIn r) \<and> dm_percentage (Fd_DM r)) (diet_info sample_output)"
    by (simp add: sample_output_def price_or_nan_def price_table_values max_double_def
          lit_def float_eval)
  have m: "moderate (lit 5.7)" "moderate (lit 13.3)" "moderate (lit 10.96)" "moderate (lit 0.9)"
    "moderate (lit 31)" "moderate (lit 3.6)" "moderate (lit 3.3)"
    "moderate (lit 1116)" "moderate (lit 1023)"
    by (simp_all add: in_band_def lit_def float_eval)
  have mm: "list_all (\<lambda>r. moderate (price_or_nan ingredient_prices_asfed_tonne (Ingredient r))
          \<and> moderate (kg_inclusion r) \<and> moderate (DM_perc r) \<and> 0 < val (DM_perc r))
        ration_list"
    by (simp add: ration_list_values price_or_nan_def price_table_values in_band_def)
  have mn: "list_all (\<lambda>r. moderate (price_or_nan ingredient_prices_asfed_tonne (Feedstuff r))
          \<and> moderate (Fd_DMIn r) \<and> moderate (Fd_DM r) \<and> 0 < val (Fd_DM r))
        (diet_info sample_output)"
    by (simp add: sample_output_def price_or_nan_def price_table_values in_band_def
          lit_def float_eval)
  have l: "length ration_list \<le> 2 ^ 50" "length (diet_info sample_output) \<le> 2 ^ 50"
    by (simp_all add: ration_list_def sample_output_def)
  note c = iofc_is_revenue_minus_feed_cost_up_to_rounding [of milk_prices "lit 5.7" "lit 13.3"
      "lit 10.96" "lit 0.9" milk_components "lit 31" "lit 3.6" "lit 3.3" ration_list
      ingredient_prices_asfed_tonne sample_output "lit 1116" "lit 1023" "lit 31",
      OF example_keys(4-7) example_keys(1-3) v [unfolded list_all_iff] v [unfolded list_all_iff]
        o vn [unfolded list_all_iff]]
  from c [THEN conjunct1] obtain kg dollars revenue tab feed_cost where
    t1: "calc_IOFC_manual milk_prices milk_components ingredient_prices_asfed_tonne
            ration_list True =
          ([kg, dollars, Print_revenue revenue, tab, Print_diet_cost feed_cost,
            Print_IOFC (fsub revenue feed_cost)], Inr (fsub revenue feed_cost))"
    and t2: "calc_IOFC_manual milk_prices milk_components ingredient_prices_asfed_tonne
            ration_list False = ([], Inr (fsub revenue feed_cost))"
    and i1: "percentage (lit 5.7) \<and> finite_ge0 (lit 13.3) \<and> finite_ge0 (lit 10.96)
           \<and> finite_ge0 (lit 0.9) \<and> finite_ge0 (lit 31) \<and> percentage (lit 3.6)
           \<and> percentage (lit 3.3)
           \<and> (\<forall>r \<in> set ration_list.
                 finite_ge0 (price_or_nan ingredient_prices_asfed_tonne (Ingredient r))
                 \<and> finite_ge0 (kg_inclusion r) \<and> dm_percentage (DM_perc r))
         \<longrightarrow> fge0 revenue \<and> fge0 feed_cost"
    and i2: "moderate (lit 5.7) \<and> moderate (lit 13.3) \<and> moderate (lit 10.96)
           \<and> moderate (lit 0.9) \<and> moderate (lit 31) \<and> moderate (lit 3.6) \<and> moderate (lit 3.3)
           \<and> (\<forall>r \<in> set ration_list.
                 moderate (price_or_nan ingredient_prices_asfed_tonne (Ingredient r))
                 \<and> moderate (kg_inclusion r) \<and> moderate (DM_perc r) \<and> 0 < val (DM_perc r))
           \<and> length ration_list \<le> 2 ^ 50
         \<longrightarrow> (\<exists>R C r c s v.
               R = exact_revenue (exact_component (val (lit 31)) (val (lit 3.6)))
                     (exact_component (val (lit 31)) (val (lit 3.3)))
                     (exact_component (val (lit 31)) (val (lit 5.7)))
                     (val (lit 13.3)) (val (lit 10.96)) (val (lit 0.9))
             \<and> C = exact_feed_cost
                     (map (\<lambda>r. (val (price_or_nan ingredient_prices_asfed_tonne (Ingredient r)),
                                 val (kg_inclusion r), val (DM_perc r))) ration_list)
             \<and> revenue = Finite False r \<and> feed_cost = Finite False c
             \<and> fsub revenue feed_cost = Finite s v
             \<and> \<bar>r - R\<bar> \<le> R * 5 / 2 ^ 51
             \<and> \<bar>c - C\<bar> \<le> C * (of_nat (length ration_list) + 7) / 2 ^ 51
             \<and> \<bar>val (Finite s v) - (R - C)\<bar>
                 \<le> (R + C) * (of_nat (length ration_list) + 8) / 2 ^ 51)"
    by (elim exE conjE)
  have g1: "fge0 revenue \<and> fge0 feed_cost"
    by (rule i1 [THEN mp]) (intro conjI n(1-7) lm [unfolded list_all_iff])
  have b1: "\<exists>R C r c s v.
               R = exact_revenue (exact_component (val (lit 31)) (val (lit 3.6)))
                     (exact_component (val (lit 31)) (val (lit 3.3)))
                     (exact_component (val (lit 31)) (val (lit 5.7)))
                     (val (lit 13.3)) (val (lit 10.96)) (val (lit 0.9))
             \<and> C = exact_feed_cost
                     (map (\<lambda>r. (val (price_or_nan ingredient_prices_asfed_tonne (Ingredient r)),
                                 val (kg_inclusion r), val (DM_perc r))) ration_list)
             \<and> revenue = Finite False r \<and> feed_cost = Finite False c
             \<and> fsub revenue feed_cost = Finite s v
             \<and> \<bar>r - R\<bar> \<le> R * 5 / 2 ^ 51
             \<and> \<bar>c - C\<bar> \<le> C * (of_nat (length ration_list) + 7) / 2 ^ 51
             \<and> \<bar>val (Finite s v) - (R - C)\<bar>
                 \<le> (R + C) * (of_nat (length ration_list) + 8) / 2 ^ 51"
    by (rule i2 [THEN mp]) (intro conjI m(1-7) mm [unfolded list_all_iff] l(1))
  have M: "\<exists>kg dollars revenue table feed_cost R C r c s v.
        calc_IOFC_manual milk_prices milk_components ingredient_prices_asfed_tonne
            ration_list True =
          ([kg, dollars, Print_revenue revenue, table, Print_diet_cost feed_cost,
            Print_IOFC (fsub revenue feed_cost)], Inr (fsub revenue feed_cost))
      \<and> calc_IOFC_manual milk_prices milk_components ingredient_prices_asfed_tonne
            ration_list False = ([], Inr (fsub revenue feed_cost))
      \<and> fge0 revenue \<and> fge0 feed_cost
      \<and> R = exact_revenue (exact_component (val (lit 31)) (val (lit 3.6)))
               (exact_component (val (lit 31)) (val (lit 3.3)))
               (exact_component (val (lit 31)) (val (lit 5.7)))
               (val (lit 13.3)) (val (lit 10.96)) (val (lit 0.9))
      \<and> C = exact_feed_cost
               (map (\<lambda>r. (val (price_or_nan ingredient_prices_asfed_tonne (Ingredient r)),
                           val (kg_inclusion r), val (DM_perc r))) ration_list)
      \<and> revenue = Finite False r \<and> feed_cost = Finite False c
      \<and> fsub revenue feed_cost = Finite s v
      \<and> \<bar>r - R\<bar> \<le> R * 5 / 2 ^ 51
      \<and> \<bar>c - C\<bar> \<le> C * (of_nat (length ration_list) + 7) / 2 ^ 51
      \<and> \<bar>val (Finite s v) - (R - C)\<bar> \<le> (R + C) * (of_nat (length ration_list) + 8) / 2 ^ 51"
    using t1 t2 g1 b1 by blast
  from c [THEN conjunct2] obtain a b cc revenue' feed_cost' where
    u1: "revenue_nd milk_prices sample_output = Inr (a, b, cc)"
    and u2: "revenue' = fadd (fadd a b) cc"
    and u3: "feed_cost' = nansum (map dollar_fed_p_d
            (assign_diet ingredient_prices_asfed_tonne (diet_info sample_output)))"
    and u4: "calc_IOFC_nd milk_prices ingredient_prices_asfed_tonne sample_output
          = Inr (fsub revenue' feed_cost')"
    and j1: "percentage (lit 5.7) \<and> finite_ge0 (lit 13.3) \<and> finite_ge0 (lit 10.96)
           \<and> finite_ge0 (lit 0.9) \<and> finite_ge0 (lit 31) \<and> finite_ge0 (lit 1116)
           \<and> finite_ge0 (lit 1023)
           \<and> (\<forall>r \<in> set (diet_info sample_output).
                 finite_ge0 (price_or_nan ingredient_prices_asfed_tonne (Feedstuff r))
                 \<and> finite_ge0 (Fd_DMIn r) \<and> dm_percentage (Fd_DM r))
         \<longrightarrow> fge0 revenue' \<and> fge0 feed_cost'"
    and j2: "moderate (lit 5.7) \<and> moderate (lit 13.3) \<and> moderate (lit 10.96)
           \<and> moderate (lit 0.9) \<and> moderate (lit 31) \<and> moderate (lit 1116)
           \<and> moderate (lit 1023)
           \<and> (\<forall>r \<in> set (diet_info sample_output).
                 moderate (price_or_nan ingredient_prices_asfed_tonne (Feedstuff r))
                 \<and> moderate (Fd_DMIn r) \<and> moderate (Fd_DM r) \<and> 0 < val (Fd_DM r))
           \<and> length (diet_info sample_output) \<le> 2 ^ 50
         \<longrightarrow> (\<exists>R C r c s v.
               R = exact_revenue (val (lit 1116) / 1000) (val (lit 1023) / 1000)
                     (exact_component (val (lit 31)) (val (lit 5.7)))
                     (val (lit 13.3)) (val (lit 10.96)) (val (lit 0.9))
             \<and> C = exact_feed_cost
                     (map (\<lambda>r. (val (price_or_nan ingredient_prices_asfed_tonne (Feedstuff r)),
                                 val (Fd_DMIn r), val (Fd_DM r))) (diet_info sample_output))
             \<and> revenue' = Finite False r \<and> feed_cost' = Finite False c
             \<and> fsub revenue' feed_cost' = Finite s v
             \<and> \<bar>r - R\<bar> \<le> R * 5 / 2 ^ 51
             \<and> \<bar>c - C\<bar> \<le> C * (of_nat (length (diet_info sample_output)) + 7) / 2 ^ 51
             \<and> \<bar>val (Finite s v) - (R - C)\<bar>
                 \<le> (R + C) * (of_nat (length (diet_info sample_output)) + 8) / 2 ^ 51)"
    by (elim exE conjE)
  have g2: "fge0 revenue' \<and> fge0 feed_cost'"
    by (rule j1 [THEN mp]) (intro conjI n(1-5) n(8,9) ln [unfolded list_all_iff])
  have b2: "\<exists>R C r c s v.
               R = exact_revenue (val (lit 1116) / 1000) (val (lit 1023) / 1000)
                     (exact_component (val (lit 31)) (val (lit 5.7)))
                     (val (lit 13.3)) (val (lit 10.96)) (val (lit 0.9))
             \<and> C = exact_feed_cost
                     (map (\<lambda>r. (val (price_or_nan ingredient_prices_asfed_tonne (Feedstuff r)),
                                 val (Fd_DMIn r), val (Fd_DM r))) (diet_info sample_output))
             \<and> revenue' = Finite False r \<and> feed_cost' = Finite False c
             \<and> fsub revenue' feed_cost' = Finite s v
             \<and> \<bar>r - R\<bar> \<le> R * 5 / 2 ^ 51
             \<and> \<bar>c - C\<bar> \<le> C * (of_nat (length (diet_info sample_output)) + 7) / 2 ^ 51
             \<and> \<bar>val (Finite s v) - (R - C)\<bar>
                 \<le> (R + C) * (of_nat (length (diet_info sample_output)) + 8) / 2 ^ 51"
    by (rule j2 [THEN mp]) (intro conjI m(1-5) m(8,9) mn [unfolded list_all_iff] l(2))
  have N: "\<exists>a b c revenue feed_cost R C r c' s v.
        revenue_nd milk_prices sample_output = Inr (a, b, c)
      \<and> revenue = fadd (fadd a b) c
      \<and> feed_cost = nansum (map dollar_fed_p_d
            (assign_diet ingredient_prices_asfed_tonne (diet_info sample_output)))
      \<and> calc_IOFC_nd milk_prices ingredient_prices_asfed_tonne sample_output
          = Inr (fsub revenue feed_cost)
      \<and> fge0 revenue \<and> fge0 feed_cost
      \<and> R = exact_revenue (val (lit 1116) / 1000) (val (lit 1023) / 1000)
               (exact_component (val (lit 31)) (val (lit 5.7)))
               (val (lit 13.3)) (val (lit 10.96)) (val (lit 0.9))
      \<and> C = exact_feed_cost
               (map (\<lambda>r. (val (price_or_nan ingredient_prices_asfed_tonne (Feedstuff r)),
                           val (Fd_DMIn r), val (Fd_DM r))) (diet_info sample_output))
      \<and> revenue = Finite False r \<and> feed_cost = Finite False c'
      \<and> fsub revenue feed_cost = Finite s v
      \<and> \<bar>r - R\<bar> \<le> R * 5 / 2 ^ 51
      \<and> \<bar>c' - C\<bar> \<le> C * (of_nat (length (diet_info sample_output)) + 7) / 2 ^ 51
      \<and> \<bar>val (Finite s v) - (R - C)\<bar>
          \<le> (R + C) * (of_nat (length (diet_info sample_output)) + 8) / 2 ^ 51"
    using u1 u2 u3 u4 g2 b2 by blast
  show ?thesis
    by (intro conjI example_keys v o vn n lm ln m mm mn l M N)
qed

text \<open>
  Claim C9. Both calculators leave their inputs as they were. After a call of either
  one, every object that was in the store before the call (the price dictionaries, the
  milk-components dictionary, the ration table, the model output) is at its address
  and unchanged: the store after the call is the store before it followed by the
  objects the call created (the validation mask and the augmented tables).
\<close>

theorem calls_leave_inputs_unchanged:
  "take (length h) (snd (calc_IOFC_manual_st h a_mp a_mc a_ip a_df verbose)) = h
   \<and> take (length h) (snd (calc_IOFC_nd_st h a_mp a_ip a_mo)) = h"
  using manual_st_frame [of h a_mp a_mc a_ip a_df verbose] nd_st_frame [of h a_mp a_ip a_mo]
  by auto

end
